theory Spec2Isabelle
  imports Complex_Main "HOL-Library.AList"
begin

section \<open>Python values used by Mobile/app.py\<close>

text \<open>
  Strings are ASCII text (\<open>char list\<close>). A Python \<open>float\<close> is modelled by the exact
  value its decimal literal denotes, or one of the three special values; the rounding
  of that value to binary64, which CPython applies afterwards, is not part of the
  model (a literal beyond the binary64 range stays finite here). The integers \<open>0\<close> and
  \<open>100\<close> that the program stores in the same field are identified with \<open>Fin 0\<close> and
  \<open>Fin 100\<close> (Python compares them equal).
\<close>

datatype pyfloat = Fin rat | PosInf | NegInf | NaN

text \<open>Python's \<open>a <= b\<close> on floats: every comparison with \<open>nan\<close> is false.\<close>

fun pf_le :: "pyfloat \<Rightarrow> pyfloat \<Rightarrow> bool" where
  "pf_le NaN _ = False"
| "pf_le _ NaN = False"
| "pf_le NegInf _ = True"
| "pf_le _ PosInf = True"
| "pf_le (Fin a) (Fin b) = (a \<le> b)"
| "pf_le _ _ = False"

datatype pyval =
    PNone
  | PBool bool
  | PStr string
  | PList "pyval list"
  | PDict "(string \<times> pyval) list"
  | PHook string

type_synonym pydict = "(string \<times> pyval) list"

text \<open>\<open>d.get(k, default)\<close> and the truth value of \<open>d.get(k)\<close>.\<close>

definition dict_get :: "pydict \<Rightarrow> string \<Rightarrow> pyval \<Rightarrow> pyval" where
  "dict_get d k dflt = (case map_of d k of None \<Rightarrow> dflt | Some v \<Rightarrow> v)"

fun truthy :: "pyval \<Rightarrow> bool" where
  "truthy PNone = False"
| "truthy (PBool b) = b"
| "truthy (PStr s) = (s \<noteq> [])"
| "truthy (PList xs) = (xs \<noteq> [])"
| "truthy (PDict d) = (d \<noteq> [])"
| "truthy (PHook _) = True"

text \<open>\<open>if not url\<close> on a value that is absent, \<open>None\<close> or a string.\<close>

fun str_truthy :: "string option \<Rightarrow> bool" where
  "str_truthy None = False"
| "str_truthy (Some s) = (s \<noteq> [])"

subsection \<open>\<open>str.replace(c, '')\<close>, \<open>str(int)\<close>, \<open>int(str)\<close> and \<open>float(str)\<close>\<close>

definition remove_char :: "char \<Rightarrow> string \<Rightarrow> string" where
  "remove_char c s = filter (\<lambda>x. x \<noteq> c) s"

definition is_space :: "char \<Rightarrow> bool" where
  "is_space c = (c \<in> set [CHR '' '', CHR 0x09, CHR 0x0A, CHR 0x0B, CHR 0x0C, CHR 0x0D])"

definition strip :: "string \<Rightarrow> string" where
  "strip s = rev (dropWhile is_space (rev (dropWhile is_space s)))"

definition is_digit :: "char \<Rightarrow> bool" where
  "is_digit c = (c \<in> set ''0123456789'')"

definition digit_val :: "char \<Rightarrow> nat" where
  "digit_val c = of_char c - 48"

definition digits_val :: "string \<Rightarrow> nat" where
  "digits_val ds = foldl (\<lambda>n c. 10 * n + digit_val c) 0 ds"

text \<open>
  Underscores in a numeric literal are accepted only between two digits; the literal is
  then read without them. \<open>prev\<close> is the character before the current one.
\<close>

fun drop_underscores :: "char option \<Rightarrow> string \<Rightarrow> string option" where
  "drop_underscores prev [] = Some []"
| "drop_underscores prev (c # cs) =
     (if c = CHR ''_'' then
        (case (prev, cs) of
           (Some p, d # _) \<Rightarrow>
             if is_digit p \<and> is_digit d then drop_underscores (Some c) cs else None
         | _ \<Rightarrow> None)
      else map_option ((#) c) (drop_underscores (Some c) cs))"

text \<open>An optional sign: whether it is a minus, and the rest.\<close>

fun split_sign :: "string \<Rightarrow> bool \<times> string" where
  "split_sign [] = (False, [])"
| "split_sign (c # cs) =
     (if c = CHR ''-'' then (True, cs)
      else if c = CHR ''+'' then (False, cs)
      else (False, c # cs))"

text \<open>\<open>int(s)\<close> in base 10; \<open>None\<close> is \<open>ValueError\<close>.\<close>

definition py_int :: "string \<Rightarrow> int option" where
  "py_int s =
     (case drop_underscores None (strip s) of
        None \<Rightarrow> None
      | Some u \<Rightarrow>
          (let (neg, ds) = split_sign u in
           if ds = [] \<or> \<not> list_all is_digit ds then None
           else Some (if neg then - int (digits_val ds) else int (digits_val ds))))"

fun str_nat :: "nat \<Rightarrow> string" where
  "str_nat n =
     (if n < 10 then [''0123456789'' ! n]
      else str_nat (n div 10) @ [''0123456789'' ! (n mod 10)])"

definition str_int :: "int \<Rightarrow> string" where
  "str_int i = (if i < 0 then CHR ''-'' # str_nat (nat (- i)) else str_nat (nat i))"

text \<open>Case-insensitive comparison with a word given in lower and in upper case.\<close>

fun ci_match :: "string \<Rightarrow> string \<Rightarrow> string \<Rightarrow> bool" where
  "ci_match [] [] [] = True"
| "ci_match (c # cs) (l # ls) (u # us) = ((c = l \<or> c = u) \<and> ci_match cs ls us)"
| "ci_match _ _ _ = False"

text \<open>The exponent part of a float literal: empty, or \<open>e\<close>, an optional sign and digits.\<close>

definition parse_exponent :: "string \<Rightarrow> int option" where
  "parse_exponent s =
     (case s of
        [] \<Rightarrow> Some 0
      | c # cs \<Rightarrow>
          if c = CHR ''e'' \<or> c = CHR ''E'' then
            (let (neg, ds) = split_sign cs in
             if ds = [] \<or> \<not> list_all is_digit ds then None
             else Some (if neg then - int (digits_val ds) else int (digits_val ds)))
          else None)"

definition scale10 :: "rat \<Rightarrow> int \<Rightarrow> rat" where
  "scale10 m k = (if 0 \<le> k then m * 10 ^ nat k else m / 10 ^ nat (- k))"

text \<open>The unsigned decimal part: digits, an optional point and digits, an optional exponent.\<close>

definition parse_decimal :: "string \<Rightarrow> rat option" where
  "parse_decimal s =
     (let d1 = takeWhile is_digit s;
          r1 = dropWhile is_digit s;
          (d2, r2) = (case r1 of
                        [] \<Rightarrow> ([], [])
                      | c # cs \<Rightarrow>
                          if c = CHR ''.'' then (takeWhile is_digit cs, dropWhile is_digit cs)
                          else ([], r1))
      in if d1 = [] \<and> d2 = [] then None
         else (case parse_exponent r2 of
                 None \<Rightarrow> None
               | Some ex \<Rightarrow>
                   Some (scale10 (of_nat (digits_val (d1 @ d2))) (ex - int (length d2)))))"

text \<open>\<open>float(s)\<close>; \<open>None\<close> is \<open>ValueError\<close>.\<close>

definition py_float :: "string \<Rightarrow> pyfloat option" where
  "py_float s =
     (case drop_underscores None (strip s) of
        None \<Rightarrow> None
      | Some u \<Rightarrow>
          (let (neg, body) = split_sign u in
           if ci_match body ''inf'' ''INF'' \<or> ci_match body ''infinity'' ''INFINITY''
           then Some (if neg then NegInf else PosInf)
           else if ci_match body ''nan'' ''NAN'' then Some NaN
           else (case parse_decimal body of
                   None \<Rightarrow> None
                 | Some v \<Rightarrow> Some (Fin (if neg then - v else v)))))"

section \<open>The job store\<close>

record job =
  status :: string
  text' :: "string option"
  progress :: pyfloat
  filename :: "string option"
  timestamp :: rat

text \<open>
  The dictionary \<open>jobs\<close>, in insertion order: assigning to a key that is present keeps
  its place, a new key goes to the end.
\<close>

type_synonym jobs = "(string \<times> job) list"

text \<open>\<open>now\<close> is the reading of \<open>time.time()\<close> taken by the call.\<close>

definition update_job_status ::
  "rat \<Rightarrow> string \<Rightarrow> string \<Rightarrow> string option \<Rightarrow> pyfloat \<Rightarrow> string option \<Rightarrow> jobs \<Rightarrow> jobs" where
  "update_job_status now job_id st txt prog fname js =
     AList.update job_id
       \<lparr>status = st, text' = txt, progress = prog, filename = fname, timestamp = now\<rparr> js"

text \<open>
  The functions below run on several threads, so each is modelled by the calls of
  \<open>update_job_status\<close> it issues, in order; a call is carried out on the store, with
  the clock reading of that moment, by \<open>exec_op\<close>. The defaults \<open>text=None\<close>,
  \<open>progress=0\<close> and \<open>filename=None\<close> are written out at each call.
\<close>

datatype store_op =
  Update_job_status string string "string option" pyfloat "string option"

fun exec_op :: "rat \<Rightarrow> store_op \<Rightarrow> jobs \<Rightarrow> jobs" where
  "exec_op now (Update_job_status job_id st txt prog fname) js =
     update_job_status now job_id st txt prog fname js"

fun op_job :: "store_op \<Rightarrow> string" where
  "op_job (Update_job_status job_id st txt prog fname) = job_id"

fun op_status :: "store_op \<Rightarrow> string" where
  "op_status (Update_job_status job_id st txt prog fname) = st"

fun op_text :: "store_op \<Rightarrow> string option" where
  "op_text (Update_job_status job_id st txt prog fname) = txt"

fun op_progress :: "store_op \<Rightarrow> pyfloat" where
  "op_progress (Update_job_status job_id st txt prog fname) = prog"

fun op_filename :: "store_op \<Rightarrow> string option" where
  "op_filename (Update_job_status job_id st txt prog fname) = fname"

section \<open>The progress hook\<close>

text \<open>
  An event of the downloader: \<open>d['status']\<close> and \<open>d.get('_percent_str')\<close>, which is
  a string when the key is present.
\<close>

record event =
  ev_status :: string
  percent_str :: "string option"

text \<open>The variable \<open>p\<close> of the hook: the percentage text with every \<open>%\<close> removed.\<close>

definition percent_of :: "event \<Rightarrow> string" where
  "percent_of d = remove_char CHR ''%'' (case percent_str d of None \<Rightarrow> ''0%'' | Some s \<Rightarrow> s)"

text \<open>
  The variable \<open>progress\<close> of the hook: \<open>float(p)\<close>, or \<open>0\<close> when that raises.
\<close>

definition progress_of :: "event \<Rightarrow> pyfloat" where
  "progress_of d = (case py_float (percent_of d) of None \<Rightarrow> Fin 0 | Some v \<Rightarrow> v)"

definition hook :: "string \<Rightarrow> event \<Rightarrow> store_op list" where
  "hook job_id d =
     (if ev_status d = ''downloading'' then
        (let p = percent_of d;
             prog = progress_of d
         in [Update_job_status job_id ''downloading''
               (Some (''Downloading... '' @ p @ ''%'')) prog None])
      else if ev_status d = ''finished'' then
        [Update_job_status job_id ''processing'' (Some ''Processing with ffmpeg...'')
           (Fin 100) None]
      else [])"

text \<open>One call of the hook, carried out on the store at time \<open>now\<close>.\<close>

definition call_hook :: "rat \<Rightarrow> string \<Rightarrow> event \<Rightarrow> jobs \<Rightarrow> jobs" where
  "call_hook now job_id d js = foldl (\<lambda>s op. exec_op now op s) js (hook job_id d)"

text \<open>The events of one download, one after the other: the writes the hook issues.\<close>

definition hook_writes :: "string \<Rightarrow> event list \<Rightarrow> store_op list" where
  "hook_writes job_id evs = concat (map (hook job_id) evs)"

definition in_range :: "pyfloat \<Rightarrow> bool" where
  "in_range x = (pf_le (Fin 0) x \<and> pf_le x (Fin 100))"

section \<open>Paths\<close>

text \<open>\<open>os.path.join\<close>, \<open>os.path.basename\<close> and \<open>os.path.splitext\<close> as in \<open>posixpath\<close>.\<close>

definition path_join :: "string \<Rightarrow> string \<Rightarrow> string" where
  "path_join a b =
     (if b \<noteq> [] \<and> hd b = CHR ''/'' then b
      else if a = [] \<or> last a = CHR ''/'' then a @ b
      else a @ ''/'' @ b)"

definition basename :: "string \<Rightarrow> string" where
  "basename p = rev (takeWhile (\<lambda>c. c \<noteq> CHR ''/'') (rev p))"

definition splitext :: "string \<Rightarrow> string \<times> string" where
  "splitext p =
     (let b = basename p;
          suffix = rev (takeWhile (\<lambda>c. c \<noteq> CHR ''.'') (rev b));
          stem = take (length b - length suffix - 1) b
      in if CHR ''.'' \<in> set b \<and> (\<exists>c \<in> set stem. c \<noteq> CHR ''.'')
         then (take (length p - length suffix - 1) p, CHR ''.'' # suffix)
         else (p, []))"

section \<open>The downloader\<close>

text \<open>
  What one \<open>yt_dlp.YoutubeDL(ydl_opts)\<close> object does in the hands of the program: each
  call the program makes either raises an exception (its message, \<open>Inl\<close>) or returns.
  \<open>opened\<close> is the outcome of \<open>YoutubeDL(ydl_opts)\<close> and of entering the \<open>with\<close>
  block, \<open>extracted\<close> that of \<open>extract_info(url, download=...)\<close>, \<open>prepared\<close> that of
  \<open>prepare_filename(info)\<close> and \<open>closed\<close> that of leaving the \<open>with\<close> block
  (\<open>__exit__\<close>). \<open>events\<close> are the events \<open>extract_info\<close> delivers to the progress
  hooks, on the calling thread, before it returns or raises.
\<close>

record ytformat =
  format_id :: "string option"
  ext :: "string option"
  vcodec :: "string option"
  acodec :: "string option"
  height :: "int option"
  format_note :: "string option"
  filesize_approx :: "int option"
  filesize :: "int option"

record info =
  title :: "string option"
  thumbnail :: "string option"
  formats :: "ytformat list option"

record ydl_run =
  opened :: "string + unit"
  events :: "event list"
  extracted :: "string + info"
  prepared :: "string + string"
  closed :: "string + unit"

text \<open>The downloader: from the options, the URL and the \<open>download\<close> flag to what it does.\<close>

type_synonym ydl = "pydict \<Rightarrow> string \<Rightarrow> bool \<Rightarrow> ydl_run"

section \<open>The download worker\<close>

text \<open>
  The dictionary \<open>ydl_opts\<close> of \<open>download_task\<close>. \<open>download_folder\<close> is the constant
  \<open>DOWNLOAD_FOLDER\<close>, \<open>cookies\<close> is \<open>os.path.exists('cookies.txt')\<close>.
\<close>

definition ydl_opts_download :: "string \<Rightarrow> bool \<Rightarrow> string \<Rightarrow> pydict \<Rightarrow> pydict" where
  "ydl_opts_download download_folder cookies job_id format_opts =
     [(''outtmpl'', PStr (path_join download_folder (job_id @ ''_%(title)s.%(ext)s''))),
      (''progress_hooks'', PList [PHook job_id]),
      (''format'', dict_get format_opts ''format_id'' (PStr ''best'')),
      (''extractor_args'',
         PDict [(''youtube'',
           PDict [(''player_client'',
                    PList [PStr ''android'', PStr ''web'', PStr ''mweb'', PStr ''ios'']),
                  (''player_skip_bundle_url'', PBool True)])]),
      (''nocheckcertificate'', PBool True),
      (''quiet'', PBool False),
      (''no_warnings'', PBool False),
      (''http_headers'',
         PDict [(''User-Agent'',
                  PStr ''Mozilla/5.0 (Windows NT 10.0; Win64; x64) AppleWebKit/537.36 (KHTML, like Gecko) Chrome/120.0.0.0 Safari/537.36''),
                (''Accept'',
                  PStr ''text/html,application/xhtml+xml,application/xml;q=0.9,*/*;q=0.8''),
                (''Accept-Language'', PStr ''en-us,en;q=0.5''),
                (''Sec-Fetch-Mode'', PStr ''navigate'')]),
      (''cookiefile'', if cookies then PStr ''cookies.txt'' else PNone),
      (''postprocessors'', dict_get format_opts ''postprocessors'' (PList []))]"

text \<open>
  The body of the \<open>with\<close> block: the writes it issues and the exception it ends with,
  if any.
\<close>

definition task_body :: "string \<Rightarrow> pydict \<Rightarrow> ydl_run \<Rightarrow> store_op list \<times> string option" where
  "task_body job_id format_opts run =
     (let reported = hook_writes job_id (events run) in
      case extracted run of
        Inl e \<Rightarrow> (reported, Some e)
      | Inr _ \<Rightarrow>
          (case prepared run of
             Inl e \<Rightarrow> (reported, Some e)
           | Inr name \<Rightarrow>
               (let name' = (if truthy (dict_get format_opts ''is_audio'' PNone)
                             then fst (splitext name) @ ''.mp3'' else name)
                in (reported @
                      [Update_job_status job_id ''completed'' (Some ''Finished!'') (Fin 100)
                         (Some (basename name'))],
                    None))))"

text \<open>
  \<open>download_task\<close>: the \<open>with\<close> block is left through \<open>__exit__\<close>, whose exception
  replaces the one of the body; \<open>except Exception\<close> then issues the \<open>error\<close> write.
\<close>

definition download_task ::
  "ydl \<Rightarrow> string \<Rightarrow> bool \<Rightarrow> string \<Rightarrow> string \<Rightarrow> pydict \<Rightarrow> store_op list" where
  "download_task yt_dlp download_folder cookies job_id url format_opts =
     (let run = yt_dlp (ydl_opts_download download_folder cookies job_id format_opts) url True;
          failed = (\<lambda>e. Update_job_status job_id ''error'' (Some (''Error: '' @ e)) (Fin 0) None)
      in case opened run of
           Inl e \<Rightarrow> [failed e]
         | Inr _ \<Rightarrow>
             (let (ops, exc) = task_body job_id format_opts run;
                  exc' = (case closed run of Inl e \<Rightarrow> Some e | Inr _ \<Rightarrow> exc)
              in case exc' of None \<Rightarrow> ops | Some e \<Rightarrow> ops @ [failed e]))"

section \<open>The HTTP handlers\<close>

datatype py_error = ValueError | StopIteration | KeyError | Collaborator string

datatype 'a response =
    Bad_request string
  | Not_found string
  | Server_error py_error
  | Ok 'a

subsection \<open>\<open>/api/download\<close>\<close>

record download_request =
  req_url :: "string option"
  req_type :: "string option"
  req_format_id :: "string option"

text \<open>
  \<open>new_id\<close> is the value of \<open>str(uuid.uuid4())\<close>. The result is the response, the
  writes issued and the threads started, each with the arguments of its
  \<open>download_task\<close>: the handler starts the thread and does not run the task.
\<close>

definition start_download ::
  "string \<Rightarrow> download_request \<Rightarrow>
     string response \<times> store_op list \<times> (string \<times> string \<times> pydict) list" where
  "start_download new_id req =
     (case req_url req of
        None \<Rightarrow> (Bad_request ''URL is required'', [], [])
      | Some url \<Rightarrow>
          if url = [] then (Bad_request ''URL is required'', [], [])
          else
            (let job_id = new_id;
                 format_opts =
                   (if req_type req = Some ''audio'' then
                      [(''format_id'', PStr ''bestaudio/best''),
                       (''is_audio'', PBool True),
                       (''postprocessors'',
                          PList [PDict [(''key'', PStr ''FFmpegExtractAudio''),
                                        (''preferredcodec'', PStr ''mp3''),
                                        (''preferredquality'', PStr ''192'')]])]
                    else
                      (case req_format_id req of
                         None \<Rightarrow> [(''format_id'', PStr ''bestvideo+bestaudio/best'')]
                       | Some fid \<Rightarrow>
                           if fid = [] then [(''format_id'', PStr ''bestvideo+bestaudio/best'')]
                           else [(''format_id'', PStr (fid @ ''+bestaudio/best''))]))
             in (Ok job_id,
                 [Update_job_status job_id ''starting'' (Some ''Starting process...'') (Fin 0)
                    None],
                 [(job_id, url, format_opts)])))"

subsection \<open>\<open>/api/status\<close>\<close>

definition get_status :: "string \<Rightarrow> jobs \<Rightarrow> job response" where
  "get_status job_id js =
     (case map_of js job_id of
        None \<Rightarrow> Not_found ''Job not found''
      | Some j \<Rightarrow> Ok j)"

subsection \<open>\<open>/api/formats\<close>\<close>

definition ydl_opts_formats :: "bool \<Rightarrow> pydict" where
  "ydl_opts_formats cookies =
     [(''extractor_args'',
         PDict [(''youtube'',
           PDict [(''player_client'',
                    PList [PStr ''android'', PStr ''web'', PStr ''mweb'', PStr ''ios'']),
                  (''player_skip_bundle_url'', PBool True)])]),
      (''http_headers'',
         PDict [(''User-Agent'',
                  PStr ''Mozilla/5.0 (Windows NT 10.0; Win64; x64) AppleWebKit/537.36 (KHTML, like Gecko) Chrome/120.0.0.0 Safari/537.36'')]),
      (''cookiefile'', if cookies then PStr ''cookies.txt'' else PNone)]"

text \<open>An element of the list \<open>formats\<close> built by the first loop.\<close>

record entry =
  e_id :: "string option"
  e_ext :: "string option"
  e_quality :: string
  e_note :: string
  e_filesize :: "int option"
  e_has_audio :: bool

text \<open>An element of \<open>formats\<close> in the response.\<close>

record out_format =
  o_id :: "string option"
  o_ext :: "string option"
  o_quality :: string
  o_note :: string
  o_filesize :: "int option"
  o_needs_merge :: bool

record formats_reply =
  r_title :: "string option"
  r_thumbnail :: "string option"
  r_formats :: "out_format list"

text \<open>\<open>a or b\<close> on two optional numbers.\<close>

definition py_or :: "int option \<Rightarrow> int option \<Rightarrow> int option" where
  "py_or a b = (case a of None \<Rightarrow> b | Some n \<Rightarrow> if n = 0 then b else Some n)"

fun collect_formats :: "ytformat list \<Rightarrow> entry list" where
  "collect_formats [] = []"
| "collect_formats (f # fs) =
     (if vcodec f \<noteq> Some ''none'' then
        (case height f of
           None \<Rightarrow> collect_formats fs
         | Some res \<Rightarrow>
             if res \<noteq> 0 \<and> res \<in> set [360, 480, 720, 1080, 1440, 2160] then
               (let has_audio = (acodec f \<noteq> Some ''none'') in
                \<lparr>e_id = format_id f,
                 e_ext = ext f,
                 e_quality = str_int res @ ''p'',
                 e_note = (case format_note f of None \<Rightarrow> [] | Some n \<Rightarrow> n),
                 e_filesize = py_or (filesize_approx f) (filesize f),
                 e_has_audio = has_audio\<rparr> # collect_formats fs)
             else collect_formats fs)
      else collect_formats fs)"

text \<open>The sort key \<open>int(x['quality'].replace('p', ''))\<close>.\<close>

definition quality_key :: "entry \<Rightarrow> int option" where
  "quality_key x = py_int (remove_char CHR ''p'' (e_quality x))"

text \<open>
  \<open>formats.sort(key=..., reverse=True)\<close>: the keys are computed first (a key that
  raises ends the request), the sort is stable, largest key first.
\<close>

definition sort_formats :: "entry list \<Rightarrow> py_error + entry list" where
  "sort_formats fs =
     (case those (map quality_key fs) of
        None \<Rightarrow> Inl ValueError
      | Some ks \<Rightarrow> Inr (map snd (sort_key (\<lambda>kf. - fst kf) (zip ks fs))))"

text \<open>\<open>next(i for i, x in enumerate(xs) if P x)\<close>; \<open>None\<close> is \<open>StopIteration\<close>.\<close>

fun first_index :: "('a \<Rightarrow> bool) \<Rightarrow> 'a list \<Rightarrow> nat option" where
  "first_index P [] = None"
| "first_index P (x # xs) = (if P x then Some 0 else map_option Suc (first_index P xs))"

text \<open>One round of the second loop, on \<open>unique_formats\<close> and \<open>seen_quality\<close>.\<close>

definition dedup_step ::
  "entry list \<times> (string \<rightharpoonup> entry) \<Rightarrow> entry \<Rightarrow> py_error + entry list \<times> (string \<rightharpoonup> entry)" where
  "dedup_step st f =
     (let unique_formats = fst st; seen_quality = snd st; q = e_quality f in
      case seen_quality q of
        None \<Rightarrow> Inr (unique_formats @ [f], seen_quality(q \<mapsto> f))
      | Some g \<Rightarrow>
          if e_has_audio f \<and> \<not> e_has_audio g then
            (case first_index (\<lambda>x. e_quality x = q) unique_formats of
               None \<Rightarrow> Inl StopIteration
             | Some idx \<Rightarrow> Inr (unique_formats[idx := f], seen_quality(q \<mapsto> f)))
          else Inr (unique_formats, seen_quality))"

fun dedup_loop ::
  "entry list \<times> (string \<rightharpoonup> entry) \<Rightarrow> entry list \<Rightarrow>
     py_error + entry list \<times> (string \<rightharpoonup> entry)" where
  "dedup_loop st [] = Inr st"
| "dedup_loop st (f # fs) =
     (case dedup_step st f of
        Inl e \<Rightarrow> Inl e
      | Inr st' \<Rightarrow> dedup_loop st' fs)"

definition render :: "entry \<Rightarrow> out_format" where
  "render f =
     \<lparr>o_id = e_id f,
      o_ext = (if \<not> e_has_audio f then Some ''mp4'' else e_ext f),
      o_quality = e_quality f,
      o_note = (if e_has_audio f then ''Video + Audio'' else ''HD (Video Only)''),
      o_filesize = e_filesize f,
      o_needs_merge = (\<not> e_has_audio f)\<rparr>"

text \<open>The body of the \<open>with\<close> block of \<open>get_formats\<close>, once \<open>extract_info\<close> has returned.\<close>

definition list_formats :: "info \<Rightarrow> py_error + formats_reply" where
  "list_formats i =
     (case sort_formats (collect_formats (case formats i of None \<Rightarrow> [] | Some fs \<Rightarrow> fs)) of
        Inl e \<Rightarrow> Inl e
      | Inr sorted_formats \<Rightarrow>
          (case dedup_loop ([], Map.empty) sorted_formats of
             Inl e \<Rightarrow> Inl e
           | Inr st \<Rightarrow>
               Inr \<lparr>r_title = title i, r_thumbnail = thumbnail i,
                    r_formats = map render (fst st)\<rparr>))"

definition get_formats :: "ydl \<Rightarrow> bool \<Rightarrow> string option \<Rightarrow> formats_reply response" where
  "get_formats yt_dlp cookies url =
     (case url of
        None \<Rightarrow> Bad_request ''URL is required''
      | Some u \<Rightarrow>
          if u = [] then Bad_request ''URL is required''
          else
            (let run = yt_dlp (ydl_opts_formats cookies) u False in
             case opened run of
               Inl e \<Rightarrow> Server_error (Collaborator e)
             | Inr _ \<Rightarrow>
                 (let result = (case extracted run of
                                  Inl e \<Rightarrow> Inl (Collaborator e)
                                | Inr i \<Rightarrow> list_formats i)
                  in case closed run of
                       Inl e \<Rightarrow> Server_error (Collaborator e)
                     | Inr _ \<Rightarrow>
                         (case result of
                            Inl e \<Rightarrow> Server_error e
                          | Inr reply \<Rightarrow> Ok reply))))"

text \<open>
  Notions for the second loop of \<open>get_formats\<close>: the elements of a list in the order
  of their first occurrence, and what holds of \<open>unique_formats\<close> and \<open>seen_quality\<close>
  once the loop has gone through the list \<open>pre\<close>.
\<close>

definition firsts :: "'a list \<Rightarrow> 'a list" where
  "firsts xs = rev (remdups (rev xs))"

definition dedup_inv :: "entry list \<Rightarrow> entry list \<times> (string \<rightharpoonup> entry) \<Rightarrow> bool" where
  "dedup_inv pre st =
     (map e_quality (fst st) = firsts (map e_quality pre) \<and>
      (\<forall>q g. (snd st q = Some g) = (g \<in> set (fst st) \<and> e_quality g = q)) \<and>
      set (fst st) \<subseteq> set pre \<and>
      (\<forall>g \<in> set pre. e_has_audio g \<longrightarrow>
         (\<exists>x \<in> set (fst st). e_quality x = e_quality g \<and> e_has_audio x)))"

section \<open>The cleanup thread\<close>

text \<open>
  The files on disk: the paths that exist, and those among them that \<open>os.remove\<close>
  cannot delete (it raises).
\<close>

record disk =
  present :: "string set"
  locked :: "string set"

definition os_remove :: "string \<Rightarrow> disk \<Rightarrow> disk option" where
  "os_remove path d =
     (if path \<in> present d \<and> path \<notin> locked d
      then Some (d\<lparr>present := present d - {path}\<rparr>)
      else None)"

text \<open>The body of the \<open>for\<close> loop, for one identifier of the snapshot.\<close>

definition cleanup_job ::
  "rat \<Rightarrow> string \<Rightarrow> string \<Rightarrow> jobs \<times> disk \<Rightarrow> py_error + jobs \<times> disk" where
  "cleanup_job now download_folder job_id w =
     (case map_of (fst w) job_id of
        None \<Rightarrow> Inl KeyError
      | Some j \<Rightarrow>
          if now - timestamp j > 3600 then
            (let d' =
               (case filename j of
                  None \<Rightarrow> snd w
                | Some name \<Rightarrow>
                    if name = [] then snd w
                    else
                      (let file_path = path_join download_folder name in
                       if file_path \<in> present (snd w) then
                         (case os_remove file_path (snd w) of
                            None \<Rightarrow> snd w
                          | Some d \<Rightarrow> d)
                       else snd w))
             in Inr (AList.delete job_id (fst w), d'))
          else Inr w)"

fun cleanup_loop ::
  "rat \<Rightarrow> string \<Rightarrow> string list \<Rightarrow> jobs \<times> disk \<Rightarrow> py_error + jobs \<times> disk" where
  "cleanup_loop now download_folder [] w = Inr w"
| "cleanup_loop now download_folder (job_id # ids) w =
     (case cleanup_job now download_folder job_id w of
        Inl e \<Rightarrow> Inl e
      | Inr w' \<Rightarrow> cleanup_loop now download_folder ids w')"

text \<open>
  One round of \<open>while True\<close>: the loop runs over \<open>list(jobs.keys())\<close>, taken before the
  first deletion; the second component is the argument of \<open>time.sleep\<close>.
\<close>

definition cleanup_cycle ::
  "rat \<Rightarrow> string \<Rightarrow> jobs \<times> disk \<Rightarrow> py_error + (jobs \<times> disk) \<times> nat" where
  "cleanup_cycle now download_folder w =
     (case cleanup_loop now download_folder (map fst (fst w)) w of
        Inl e \<Rightarrow> Inl e
      | Inr w' \<Rightarrow> Inr (w', 300))"

text \<open>Whether the job \<open>k\<close> is older than an hour at time \<open>now\<close>.\<close>

definition expired :: "rat \<Rightarrow> jobs \<Rightarrow> string \<Rightarrow> bool" where
  "expired now js k = (case map_of js k of None \<Rightarrow> False | Some j \<Rightarrow> now - timestamp j > 3600)"

text \<open>
  The files a pass over the identifiers \<open>ids\<close> deletes: those of the expired jobs
  among them, unless \<open>os.remove\<close> fails.
\<close>

definition doomed :: "rat \<Rightarrow> string \<Rightarrow> string set \<Rightarrow> jobs \<Rightarrow> disk \<Rightarrow> string set" where
  "doomed now dl ids js d =
     {p. \<exists>k j name. k \<in> ids \<and> map_of js k = Some j \<and> now - timestamp j > 3600 \<and>
           filename j = Some name \<and> name \<noteq> [] \<and> p = path_join dl name \<and> p \<notin> locked d}"

section \<open>The threads together\<close>

text \<open>
  The store and, for each worker thread, the writes it has yet to issue. A step is a
  request to \<open>/api/download\<close>, the next write of a worker, or a round of the cleanup
  thread; every step happens at some clock reading \<open>now\<close>.
\<close>

record system =
  store :: jobs
  workers :: "store_op list list"

inductive step :: "system \<Rightarrow> system \<Rightarrow> bool" where
  dispatch:
    "start_download new_id req = (resp, ops, tasks) \<Longrightarrow>
     step s \<lparr>store = foldl (\<lambda>js op. exec_op now op js) (store s) ops,
             workers = workers s @
               map (\<lambda>(job_id, url, format_opts).
                      download_task yt_dlp download_folder cookies job_id url format_opts) tasks\<rparr>"
| work:
    "i < length (workers s) \<Longrightarrow> workers s ! i = op # rest \<Longrightarrow>
     step s \<lparr>store = exec_op now op (store s), workers = (workers s)[i := rest]\<rparr>"
| sweep:
    "cleanup_cycle now download_folder (store s, d) = Inr ((js', d'), pause) \<Longrightarrow>
     step s \<lparr>store = js', workers = workers s\<rparr>"

inductive reachable :: "system \<Rightarrow> bool" where
  initial: "reachable \<lparr>store = [], workers = []\<rparr>"
| after: "reachable s \<Longrightarrow> step s t \<Longrightarrow> reachable t"

text \<open>
  A record, or a write, names a file exactly when its status is \<open>completed\<close>; a state
  of the system in which every record and every pending write is such.
\<close>

definition job_ok :: "job \<Rightarrow> bool" where
  "job_ok j = ((filename j \<noteq> None) = (status j = ''completed''))"

definition op_ok :: "store_op \<Rightarrow> bool" where
  "op_ok op = ((op_filename op \<noteq> None) = (op_status op = ''completed''))"

definition consistent :: "system \<Rightarrow> bool" where
  "consistent s =
     ((\<forall>k j. map_of (store s) k = Some j \<longrightarrow> job_ok j) \<and>
      (\<forall>ops \<in> set (workers s). \<forall>op \<in> set ops. op_ok op))"

section \<open>Downloaders used in the examples\<close>

text \<open>A downloader that refuses to open and reports the \<open>cookiefile\<close> option it was given.\<close>

definition ydl_rejecting :: ydl where
  "ydl_rejecting ydl_opts url download =
     \<lparr>opened = Inl (case map_of ydl_opts ''cookiefile'' of
                     None \<Rightarrow> ''no cookiefile option''
                   | Some PNone \<Rightarrow> ''cookiefile is None''
                   | Some _ \<Rightarrow> ''cookiefile is set''),
      events = [], extracted = Inl [], prepared = Inl [], closed = Inr ()\<rparr>"

text \<open>
  A download that succeeds, after which closing the downloader fails (it saves the
  cookie jar to \<open>cookies.txt\<close> on exit).
\<close>

definition ydl_close_fails :: ydl where
  "ydl_close_fails ydl_opts url download =
     \<lparr>opened = Inr (),
      events = [\<lparr>ev_status = ''downloading'', percent_str = Some ''100%''\<rparr>,
                \<lparr>ev_status = ''finished'', percent_str = None\<rparr>],
      extracted = Inr \<lparr>title = Some ''clip'', thumbnail = None, formats = None\<rparr>,
      prepared = Inr ''/srv/app/downloads/j1_clip.mp4'',
      closed = Inl ''Permission denied: cookies.txt''\<rparr>"

text \<open>A download that succeeds without reporting progress.\<close>

definition ydl_quiet :: ydl where
  "ydl_quiet ydl_opts url download =
     \<lparr>opened = Inr (), events = [],
      extracted = Inr \<lparr>title = Some ''clip'', thumbnail = None, formats = None\<rparr>,
      prepared = Inr ''/srv/app/downloads/j1_clip.webm'',
      closed = Inr ()\<rparr>"

text \<open>A listing with two formats at 720p, one of them without audio, and others.\<close>

definition ydl_listing :: ydl where
  "ydl_listing ydl_opts url download =
     \<lparr>opened = Inr (), events = [],
      extracted = Inr
        \<lparr>title = Some ''clip'', thumbnail = None,
           formats = Some
             [\<lparr>format_id = Some ''18'', ext = Some ''mp4'', vcodec = Some ''avc1'',
                 acodec = Some ''mp4a'', height = Some 360, format_note = Some ''360p'',
                 filesize_approx = None, filesize = Some 1000\<rparr>,
              \<lparr>format_id = Some ''247'', ext = Some ''webm'', vcodec = Some ''vp9'',
                 acodec = Some ''none'', height = Some 720, format_note = Some ''720p'',
                 filesize_approx = None, filesize = Some 3000\<rparr>,
              \<lparr>format_id = Some ''22'', ext = Some ''mp4'', vcodec = Some ''avc1'',
                 acodec = Some ''mp4a'', height = Some 720, format_note = Some ''720p'',
                 filesize_approx = None, filesize = Some 4000\<rparr>,
              \<lparr>format_id = Some ''140'', ext = Some ''m4a'', vcodec = Some ''none'',
                 acodec = Some ''mp4a'', height = None, format_note = None,
                 filesize_approx = None, filesize = Some 500\<rparr>,
              \<lparr>format_id = Some ''313'', ext = Some ''webm'', vcodec = Some ''vp9'',
                 acodec = Some ''none'', height = Some 2160, format_note = Some ''2160p'',
                 filesize_approx = Some 9000, filesize = None\<rparr>,
              \<lparr>format_id = Some ''160'', ext = Some ''mp4'', vcodec = Some ''avc1'',
                 acodec = Some ''none'', height = Some 144, format_note = Some ''144p'',
                 filesize_approx = None, filesize = Some 100\<rparr>]\<rparr>,
      prepared = Inl [], closed = Inr ()\<rparr>"

section \<open>Properties\<close>

subsection \<open>The store\<close>

lemma map_of_update_job_status:
  "map_of (update_job_status now job_id st txt prog fname js) k =
     (if k = job_id
      then Some \<lparr>status = st, text' = txt, progress = prog, filename = fname, timestamp = now\<rparr>
      else map_of js k)"
  by (simp add: update_job_status_def update_conv')

lemma map_of_exec_op:
  "map_of (exec_op now op js) k =
     (if k = op_job op
      then Some \<lparr>status = op_status op, text' = op_text op, progress = op_progress op,
                  filename = op_filename op, timestamp = now\<rparr>
      else map_of js k)"
  by (cases op) (simp add: map_of_update_job_status)

subsection \<open>The progress hook\<close>

lemma py_float_zero: "py_float ''0'' = Some (Fin 0)"
  by (simp add: py_float_def strip_def is_space_def parse_decimal_def parse_exponent_def
      is_digit_def digits_val_def digit_val_def scale10_def)

text \<open>
  C4. An event with status \<open>downloading\<close> and percentage text \<open>p\<close> (the text of the
  event with its \<open>%\<close> signs removed) replaces the record of the job by one with status
  \<open>downloading\<close>, message \<open>Downloading... p%\<close> and progress \<open>float(p)\<close>, or \<open>0\<close>
  when \<open>p\<close> is not a float literal. An event with status \<open>finished\<close> replaces it
  by one with status \<open>processing\<close>, message \<open>Processing with ffmpeg...\<close> and progress
  \<open>100\<close>. An event of any other kind leaves the store as it is.
\<close>

theorem hook_event_writes:
  "(ev_status d = ''downloading'' \<longrightarrow>
      map_of (call_hook now job_id d js) job_id =
        Some \<lparr>status = ''downloading'',
              text' = Some (''Downloading... '' @ percent_of d @ ''%''),
              progress = (case py_float (percent_of d) of None \<Rightarrow> Fin 0 | Some v \<Rightarrow> v),
              filename = None, timestamp = now\<rparr>) \<and>
   (ev_status d = ''finished'' \<longrightarrow>
      map_of (call_hook now job_id d js) job_id =
        Some \<lparr>status = ''processing'', text' = Some ''Processing with ffmpeg...'',
              progress = Fin 100, filename = None, timestamp = now\<rparr>) \<and>
   (ev_status d \<noteq> ''downloading'' \<and> ev_status d \<noteq> ''finished'' \<longrightarrow>
      call_hook now job_id d js = js)"
  by (simp add: call_hook_def hook_def progress_of_def Let_def map_of_update_job_status)

theorem hook_event_writes_witness:
  "map_of (call_hook 7 ''j1'' \<lparr>ev_status = ''downloading'', percent_str = Some '' 45.3%''\<rparr> [])
      ''j1'' =
     Some \<lparr>status = ''downloading'', text' = Some ''Downloading...  45.3%'',
           progress = Fin (453 / 10), filename = None, timestamp = 7\<rparr> \<and>
   map_of (call_hook 7 ''j1'' \<lparr>ev_status = ''downloading'', percent_str = Some ''Unknown %''\<rparr> [])
      ''j1'' =
     Some \<lparr>status = ''downloading'', text' = Some ''Downloading... Unknown %'',
           progress = Fin 0, filename = None, timestamp = 7\<rparr> \<and>
   map_of (call_hook 8 ''j1'' \<lparr>ev_status = ''finished'', percent_str = None\<rparr> []) ''j1'' =
     Some \<lparr>status = ''processing'', text' = Some ''Processing with ffmpeg...'',
           progress = Fin 100, filename = None, timestamp = 8\<rparr> \<and>
   call_hook 9 ''j1'' \<lparr>ev_status = ''error'', percent_str = None\<rparr> [] = []"
proof -
  have p1: "percent_of \<lparr>ev_status = ''downloading'', percent_str = Some '' 45.3%''\<rparr> = '' 45.3''"
    by (simp add: percent_of_def remove_char_def)
  have f1: "py_float '' 45.3'' = Some (Fin (453 / 10))"
    by code_simp
  have p2: "percent_of \<lparr>ev_status = ''downloading'', percent_str = Some ''Unknown %''\<rparr> = ''Unknown ''"
    by (simp add: percent_of_def remove_char_def)
  have f2: "py_float ''Unknown '' = None"
    by code_simp
  show ?thesis
    using hook_event_writes [of "\<lparr>ev_status = ''downloading'', percent_str = Some '' 45.3%''\<rparr>"
                               7 "''j1''" "[]"]
          hook_event_writes [of "\<lparr>ev_status = ''downloading'', percent_str = Some ''Unknown %''\<rparr>"
                               7 "''j1''" "[]"]
          hook_event_writes [of "\<lparr>ev_status = ''finished'', percent_str = None\<rparr>" 8 "''j1''" "[]"]
          hook_event_writes [of "\<lparr>ev_status = ''error'', percent_str = None\<rparr>" 9 "''j1''" "[]"]
    by (simp add: p1 f1 p2 f2)
qed

text \<open>
  C10. A \<open>downloading\<close> event without a percentage field is handled like one whose
  percentage is \<open>0%\<close>: the hook issues exactly one write, and the record of the job
  then has progress \<open>0\<close> and message \<open>Downloading... 0%\<close>.
\<close>

theorem hook_downloading_without_percent:
  "hook job_id \<lparr>ev_status = ''downloading'', percent_str = None\<rparr> =
     [Update_job_status job_id ''downloading'' (Some ''Downloading... 0%'') (Fin 0) None] \<and>
   map_of (call_hook now job_id \<lparr>ev_status = ''downloading'', percent_str = None\<rparr> js) job_id =
     Some \<lparr>status = ''downloading'', text' = Some ''Downloading... 0%'', progress = Fin 0,
           filename = None, timestamp = now\<rparr>"
  by (simp add: call_hook_def hook_def progress_of_def percent_of_def remove_char_def
      py_float_zero map_of_update_job_status)

subsection \<open>Progress values\<close>

lemma hook_op_progress:
  "op \<in> set (hook job_id d) \<Longrightarrow>
     op_progress op = (if ev_status d = ''downloading'' then progress_of d else Fin 100)"
  by (auto simp: hook_def Let_def split: if_splits)

lemma in_range_100: "in_range (Fin 100)"
  by (simp add: in_range_def)

lemma downloading_writes:
  "map op_progress (filter (\<lambda>op. op_status op = ''downloading'') (hook_writes job_id evs)) =
     map progress_of (filter (\<lambda>d. ev_status d = ''downloading'') evs)"
  by (induction evs) (simp_all add: hook_writes_def hook_def Let_def)

text \<open>
  C5, as the program has it. The progress written is the value the downloader reports:
  \<open>float(p)\<close> for a \<open>downloading\<close> event (\<open>0\<close> when \<open>p\<close> is not a float literal),
  \<open>100\<close> for a \<open>finished\<close> event. So every write has its progress in \<open>[0, 100]\<close>
  when every reported percentage is, and the \<open>downloading\<close> writes do not decrease
  from one to the next when the reported percentages do not.
\<close>

theorem progress_as_reported:
  "map op_progress (filter (\<lambda>op. op_status op = ''downloading'') (hook_writes job_id evs)) =
     map progress_of (filter (\<lambda>d. ev_status d = ''downloading'') evs) \<and>
   ((\<forall>d \<in> set evs. ev_status d = ''downloading'' \<longrightarrow> in_range (progress_of d)) \<longrightarrow>
      (\<forall>op \<in> set (hook_writes job_id evs). in_range (op_progress op))) \<and>
   (successively pf_le (map progress_of (filter (\<lambda>d. ev_status d = ''downloading'') evs)) \<longrightarrow>
      successively pf_le
        (map op_progress (filter (\<lambda>op. op_status op = ''downloading'') (hook_writes job_id evs))))"
proof (intro conjI impI ballI)
  show "map op_progress (filter (\<lambda>op. op_status op = ''downloading'') (hook_writes job_id evs)) =
     map progress_of (filter (\<lambda>d. ev_status d = ''downloading'') evs)"
    by (rule downloading_writes)
next
  fix op
  assume r: "\<forall>d \<in> set evs. ev_status d = ''downloading'' \<longrightarrow> in_range (progress_of d)"
    and m: "op \<in> set (hook_writes job_id evs)"
  from m obtain d where d: "d \<in> set evs" and o: "op \<in> set (hook job_id d)"
    by (auto simp: hook_writes_def)
  show "in_range (op_progress op)"
    using r d hook_op_progress [OF o] in_range_100 by auto
next
  assume "successively pf_le (map progress_of (filter (\<lambda>d. ev_status d = ''downloading'') evs))"
  then show "successively pf_le
        (map op_progress (filter (\<lambda>op. op_status op = ''downloading'') (hook_writes job_id evs)))"
    by (simp only: downloading_writes)
qed

theorem progress_as_reported_witness:
  "list_all (\<lambda>op. in_range (op_progress op))
     (hook_writes ''j1''
       [\<lparr>ev_status = ''downloading'', percent_str = Some '' 10.0%''\<rparr>,
        \<lparr>ev_status = ''downloading'', percent_str = Some '' 55.5%''\<rparr>,
        \<lparr>ev_status = ''finished'', percent_str = None\<rparr>]) \<and>
   successively pf_le
     (map op_progress (filter (\<lambda>op. op_status op = ''downloading'')
        (hook_writes ''j1''
          [\<lparr>ev_status = ''downloading'', percent_str = Some '' 10.0%''\<rparr>,
           \<lparr>ev_status = ''downloading'', percent_str = Some '' 55.5%''\<rparr>,
           \<lparr>ev_status = ''finished'', percent_str = None\<rparr>])))"
proof -
  have a: "progress_of \<lparr>ev_status = ''downloading'', percent_str = Some '' 10.0%''\<rparr> = Fin 10"
    by code_simp
  have b: "progress_of \<lparr>ev_status = ''downloading'', percent_str = Some '' 55.5%''\<rparr> = Fin (111 / 2)"
    by code_simp
  show ?thesis
    using progress_as_reported [of "''j1''"
       "[\<lparr>ev_status = ''downloading'', percent_str = Some '' 10.0%''\<rparr>,
        \<lparr>ev_status = ''downloading'', percent_str = Some '' 55.5%''\<rparr>,
        \<lparr>ev_status = ''finished'', percent_str = None\<rparr>]"]
    by (simp add: a b in_range_def list_all_iff)
qed

text \<open>
  C5, as stated, fails: the hook neither clamps nor orders what it is given. After the
  percentages \<open>50%\<close>, \<open>30%\<close> and \<open>150%\<close> the record, still \<open>downloading\<close>, goes
  from progress \<open>50\<close> down to \<open>30\<close> and then to \<open>150\<close>.
\<close>

theorem progress_unclamped_counterexample:
  "get_status ''j1''
     (call_hook 1 ''j1'' \<lparr>ev_status = ''downloading'', percent_str = Some ''50%''\<rparr> []) =
     Ok \<lparr>status = ''downloading'', text' = Some ''Downloading... 50%'', progress = Fin 50,
          filename = None, timestamp = 1\<rparr> \<and>
   get_status ''j1''
     (call_hook 2 ''j1'' \<lparr>ev_status = ''downloading'', percent_str = Some ''30%''\<rparr>
       (call_hook 1 ''j1'' \<lparr>ev_status = ''downloading'', percent_str = Some ''50%''\<rparr> [])) =
     Ok \<lparr>status = ''downloading'', text' = Some ''Downloading... 30%'', progress = Fin 30,
          filename = None, timestamp = 2\<rparr> \<and>
   get_status ''j1''
     (call_hook 3 ''j1'' \<lparr>ev_status = ''downloading'', percent_str = Some ''150%''\<rparr>
       (call_hook 2 ''j1'' \<lparr>ev_status = ''downloading'', percent_str = Some ''30%''\<rparr>
         (call_hook 1 ''j1'' \<lparr>ev_status = ''downloading'', percent_str = Some ''50%''\<rparr> []))) =
     Ok \<lparr>status = ''downloading'', text' = Some ''Downloading... 150%'', progress = Fin 150,
          filename = None, timestamp = 3\<rparr> \<and>
   \<not> pf_le (Fin 50) (Fin 30) \<and> \<not> pf_le (Fin 150) (Fin 100)"
  by code_simp

subsection \<open>The options given to the downloader\<close>

text \<open>
  C8, as the program has it. Both option dictionaries always hold the key
  \<open>cookiefile\<close>: its value is \<open>'cookies.txt'\<close> when that file exists and \<open>None\<close>
  when it does not.
\<close>

theorem cookiefile_always_passed:
  "map_of (ydl_opts_download download_folder True job_id format_opts) ''cookiefile'' =
     Some (PStr ''cookies.txt'') \<and>
   map_of (ydl_opts_download download_folder False job_id format_opts) ''cookiefile'' =
     Some PNone \<and>
   map_of (ydl_opts_formats True) ''cookiefile'' = Some (PStr ''cookies.txt'') \<and>
   map_of (ydl_opts_formats False) ''cookiefile'' = Some PNone"
  by (simp add: ydl_opts_download_def ydl_opts_formats_def)

text \<open>
  C8, as stated, fails: without a cookie file the option is not left out. A downloader
  that refuses to open and reports what it was given under \<open>cookiefile\<close> reports the
  value \<open>None\<close>.
\<close>

theorem cookiefile_none_counterexample:
  "download_task
     ydl_rejecting ''/srv/app/downloads'' False ''j1'' ''https://example/video''
     [(''format_id'', PStr ''bestvideo+bestaudio/best'')] =
     [Update_job_status ''j1'' ''error'' (Some ''Error: cookiefile is None'') (Fin 0) None] \<and>
   map_of (ydl_opts_download ''/srv/app/downloads'' False ''j1''
             [(''format_id'', PStr ''bestvideo+bestaudio/best'')]) ''cookiefile'' = Some PNone \<and>
   map_of (ydl_opts_formats False) ''cookiefile'' = Some PNone"
  by (simp add: download_task_def ydl_rejecting_def ydl_opts_download_def ydl_opts_formats_def)

subsection \<open>Starting a download\<close>

text \<open>
  C3. Without a URL (none, or the empty string) \<open>start_download\<close> answers 400, issues
  no write and starts no thread. With a URL it answers with the new identifier, has
  issued the one write that creates the \<open>starting\<close> record, and has started one thread
  for \<open>download_task\<close> on that identifier and URL; the answer does not depend on what
  the downloader later does.
\<close>

theorem start_download_dispatch:
  "(\<not> str_truthy (req_url req) \<longrightarrow>
      start_download new_id req = (Bad_request ''URL is required'', [], [])) \<and>
   (str_truthy (req_url req) \<longrightarrow>
      (\<exists>url format_opts.
         req_url req = Some url \<and>
         start_download new_id req =
           (Ok new_id,
            [Update_job_status new_id ''starting'' (Some ''Starting process...'') (Fin 0) None],
            [(new_id, url, format_opts)]) \<and>
         get_status new_id
           (foldl (\<lambda>js op. exec_op now op js) js (fst (snd (start_download new_id req)))) =
           Ok \<lparr>status = ''starting'', text' = Some ''Starting process...'', progress = Fin 0,
                filename = None, timestamp = now\<rparr>))"
  by (cases "req_url req")
     (auto simp: start_download_def Let_def get_status_def map_of_update_job_status)

theorem start_download_dispatch_witness:
  "start_download ''j1'' \<lparr>req_url = Some [], req_type = Some ''video'', req_format_id = Some ''137''\<rparr> =
     (Bad_request ''URL is required'', [], []) \<and>
   start_download ''j2''
       \<lparr>req_url = Some ''https://example/video'', req_type = Some ''audio'', req_format_id = None\<rparr> =
     (Ok ''j2'',
      [Update_job_status ''j2'' ''starting'' (Some ''Starting process...'') (Fin 0) None],
      [(''j2'', ''https://example/video'',
        [(''format_id'', PStr ''bestaudio/best''),
         (''is_audio'', PBool True),
         (''postprocessors'',
            PList [PDict [(''key'', PStr ''FFmpegExtractAudio''),
                          (''preferredcodec'', PStr ''mp3''),
                          (''preferredquality'', PStr ''192'')]])])]) \<and>
   get_status ''j2''
     (foldl (\<lambda>js op. exec_op 5 op js) []
        (fst (snd (start_download ''j2''
           \<lparr>req_url = Some ''https://example/video'', req_type = Some ''audio'',
              req_format_id = None\<rparr>)))) =
     Ok \<lparr>status = ''starting'', text' = Some ''Starting process...'', progress = Fin 0,
          filename = None, timestamp = 5\<rparr>"
  using start_download_dispatch
          [of "\<lparr>req_url = Some [], req_type = Some ''video'', req_format_id = Some ''137''\<rparr>"
              "''j1''" 5 "[]"]
        start_download_dispatch
          [of "\<lparr>req_url = Some ''https://example/video'', req_type = Some ''audio'',
                 req_format_id = None\<rparr>" "''j2''" 5 "[]"]
  by (simp add: start_download_def Let_def get_status_def map_of_update_job_status)

subsection \<open>The download worker\<close>

lemma task_body_shape:
  "task_body job_id format_opts run = (ops, exc) \<Longrightarrow>
     (\<exists>name. exc = None \<and>
        ops = hook_writes job_id (events run) @
          [Update_job_status job_id ''completed'' (Some ''Finished!'') (Fin 100) (Some name)]) \<or>
     (exc \<noteq> None \<and> ops = hook_writes job_id (events run))"
  by (auto simp: task_body_def Let_def split: sum.splits)

lemma hook_writes_status:
  "op \<in> set (hook_writes job_id evs) \<Longrightarrow>
     (op_status op = ''downloading'' \<or> op_status op = ''processing'') \<and> op_filename op = None"
  by (auto simp: hook_writes_def hook_def Let_def split: if_splits)

lemma hook_writes_not_final:
  "op \<in> set (hook_writes job_id evs) \<Longrightarrow>
     op_status op \<noteq> ''completed'' \<and> op_status op \<noteq> ''error'' \<and> op_filename op = None"
  by (auto simp: hook_writes_def hook_def Let_def split: if_splits)

lemma download_task_one_final_write:
  assumes "closed (yt_dlp (ydl_opts_download download_folder cookies job_id format_opts) url True)
             = Inr ()"
  shows "\<exists>ops t. download_task yt_dlp download_folder cookies job_id url format_opts = ops @ [t] \<and>
           (op_status t = ''completed'' \<or> op_status t = ''error'') \<and>
           (\<forall>op \<in> set ops. op_status op = ''downloading'' \<or> op_status op = ''processing'')"
proof -
  let ?run = "yt_dlp (ydl_opts_download download_folder cookies job_id format_opts) url True"
  obtain ops exc where b: "task_body job_id format_opts ?run = (ops, exc)"
    by (cases "task_body job_id format_opts ?run")
  show ?thesis
  proof (cases "opened ?run")
    case (Inl e)
    then show ?thesis by (simp add: download_task_def)
  next
    case (Inr u)
    from task_body_shape [OF b] show ?thesis
      using Inr b assms hook_writes_status [of _ job_id "events ?run"]
      by (cases exc) (auto simp: download_task_def Let_def)
  qed
qed

lemma download_task_filename:
  "op \<in> set (download_task yt_dlp download_folder cookies job_id url format_opts) \<Longrightarrow>
     (op_filename op \<noteq> None) = (op_status op = ''completed'')"
proof -
  assume m: "op \<in> set (download_task yt_dlp download_folder cookies job_id url format_opts)"
  let ?run = "yt_dlp (ydl_opts_download download_folder cookies job_id format_opts) url True"
  obtain ops exc where b: "task_body job_id format_opts ?run = (ops, exc)"
    by (cases "task_body job_id format_opts ?run")
  have ops: "(op_filename x \<noteq> None) = (op_status x = ''completed'')" if "x \<in> set ops" for x
    using that task_body_shape [OF b] hook_writes_not_final [of x job_id "events ?run"]
    by auto
  show ?thesis
  proof (cases "opened ?run")
    case (Inl e)
    with m show ?thesis by (simp add: download_task_def)
  next
    case (Inr u)
    with m b ops show ?thesis
      by (auto simp: download_task_def Let_def split: sum.splits option.splits)
  qed
qed

text \<open>
  C2 does not hold of the program. The \<open>completed\<close> write is issued inside the
  \<open>with\<close> block, itself inside \<open>try\<close>: when leaving the block raises, the handler
  issues an \<open>error\<close> write for a job already \<open>completed\<close>, and a poll after it sees
  another record than the poll before it.
\<close>

theorem completed_then_error:
  "download_task ydl_close_fails ''/srv/app/downloads'' True ''j1'' ''https://example/video''
     [(''format_id'', PStr ''bestvideo+bestaudio/best'')] =
     [Update_job_status ''j1'' ''downloading'' (Some ''Downloading... 100%'') (Fin 100) None,
      Update_job_status ''j1'' ''processing'' (Some ''Processing with ffmpeg...'') (Fin 100) None,
      Update_job_status ''j1'' ''completed'' (Some ''Finished!'') (Fin 100) (Some ''j1_clip.mp4''),
      Update_job_status ''j1'' ''error'' (Some ''Error: Permission denied: cookies.txt'') (Fin 0)
        None] \<and>
   get_status ''j1''
     (exec_op 13 (Update_job_status ''j1'' ''completed'' (Some ''Finished!'') (Fin 100)
                    (Some ''j1_clip.mp4''))
        [(''j1'', \<lparr>status = ''processing'', text' = Some ''Processing with ffmpeg...'',
                   progress = Fin 100, filename = None, timestamp = 12\<rparr>)]) =
     Ok \<lparr>status = ''completed'', text' = Some ''Finished!'', progress = Fin 100,
          filename = Some ''j1_clip.mp4'', timestamp = 13\<rparr> \<and>
   get_status ''j1''
     (exec_op 14 (Update_job_status ''j1'' ''error''
                    (Some ''Error: Permission denied: cookies.txt'') (Fin 0) None)
        [(''j1'', \<lparr>status = ''completed'', text' = Some ''Finished!'', progress = Fin 100,
                   filename = Some ''j1_clip.mp4'', timestamp = 13\<rparr>)]) =
     Ok \<lparr>status = ''error'', text' = Some ''Error: Permission denied: cookies.txt'',
          progress = Fin 0, filename = None, timestamp = 14\<rparr>"
  by code_simp

subsection \<open>The cleanup thread\<close>

lemma cleanup_job_keeps:
  "cleanup_job now dl a (js, d) = Inr (js', d') \<Longrightarrow> map_of js' k = Some j \<Longrightarrow> map_of js k = Some j"
  by (auto simp: cleanup_job_def Let_def delete_conv' split: option.splits if_splits)

lemma cleanup_loop_keeps:
  "cleanup_loop now dl ids (js, d) = Inr (js', d') \<Longrightarrow> map_of js' k = Some j \<Longrightarrow> map_of js k = Some j"
proof (induction ids arbitrary: js d)
  case Nil
  then show ?case by simp
next
  case (Cons a ids)
  from Cons.prems(1) obtain js1 d1 where
    s: "cleanup_job now dl a (js, d) = Inr (js1, d1)" and
    r: "cleanup_loop now dl ids (js1, d1) = Inr (js', d')"
    by (auto split: sum.splits)
  from Cons.IH [OF r Cons.prems(2)] cleanup_job_keeps [OF s] show ?case by blast
qed

lemma cleanup_job_effect:
  assumes "map_of js a = Some j"
  shows "\<exists>js' d'. cleanup_job now dl a (js, d) = Inr (js', d') \<and>
           map_of js' = (if now - timestamp j > 3600 then (map_of js)(a := None) else map_of js) \<and>
           present d' = present d - doomed now dl {a} js d \<and> locked d' = locked d"
  using assms
  by (auto simp: cleanup_job_def Let_def delete_conv' os_remove_def doomed_def
      split: option.splits if_splits)

lemma cleanup_loop_effect:
  assumes "distinct ids" and "set ids \<subseteq> dom (map_of js)"
  shows "\<exists>js' d'. cleanup_loop now dl ids (js, d) = Inr (js', d') \<and>
           map_of js' = (\<lambda>k. if k \<in> set ids \<and> expired now js k then None else map_of js k) \<and>
           present d' = present d - doomed now dl (set ids) js d \<and> locked d' = locked d"
  using assms
proof (induction ids arbitrary: js d)
  case Nil
  then show ?case by (simp add: doomed_def)
next
  case (Cons a ids)
  from Cons.prems obtain j where j: "map_of js a = Some j" by auto
  from cleanup_job_effect [OF j, of now dl d] obtain js1 d1 where
    s: "cleanup_job now dl a (js, d) = Inr (js1, d1)" and
    m1: "map_of js1 = (if now - timestamp j > 3600 then (map_of js)(a := None) else map_of js)" and
    p1: "present d1 = present d - doomed now dl {a} js d" and l1: "locked d1 = locked d"
    by blast
  have same: "map_of js1 k = map_of js k" if "k \<in> set ids" for k
    using that Cons.prems(1) m1 by auto
  have d: "distinct ids" and sub: "set ids \<subseteq> dom (map_of js1)"
    using Cons.prems same by (auto simp: dom_def) 
  from Cons.IH [OF d sub, of d1] obtain js' d' where
    r: "cleanup_loop now dl ids (js1, d1) = Inr (js', d')" and
    m': "map_of js' = (\<lambda>k. if k \<in> set ids \<and> expired now js1 k then None else map_of js1 k)" and
    p': "present d' = present d1 - doomed now dl (set ids) js1 d1" and l': "locked d' = locked d1"
    by blast
  have e: "expired now js1 k = expired now js k" if "k \<in> set ids" for k
    using same [OF that] by (simp add: expired_def)
  have dm: "doomed now dl (set ids) js1 d1 = doomed now dl (set ids) js d"
    using same l1 by (auto simp: doomed_def)
  have un: "doomed now dl (set (a # ids)) js d = doomed now dl {a} js d \<union> doomed now dl (set ids) js d"
    by (auto simp: doomed_def)
  have "map_of js' = (\<lambda>k. if k \<in> set (a # ids) \<and> expired now js k then None else map_of js k)"
    using m' m1 e j by (auto simp: fun_eq_iff expired_def)
  moreover have "present d' = present d - doomed now dl (set (a # ids)) js d"
    using p' p1 dm un by auto
  moreover have "locked d' = locked d" using l' l1 by simp
  ultimately show ?case using s r by simp
qed


text \<open>
  C7. One round of the cleanup thread, on a store whose keys are distinct, ends without
  an exception and asks for a pause of 300 seconds. It visits the identifiers present at
  its start. Every job whose timestamp is more than 3600 seconds before \<open>now\<close> is
  gone from the store afterwards, every other job is there unchanged, and no job is
  added. The file of a removed job (its filename, when there is one, under the download
  folder) no longer exists unless its deletion failed, a failure the round ignores; no
  other file is deleted.
\<close>

theorem cleanup_cycle_effect:
  assumes "distinct (map fst js)"
  shows "\<exists>js' d'. cleanup_cycle now dl (js, d) = Inr ((js', d'), 300) \<and>
    (\<forall>k j. map_of js k = Some j \<longrightarrow>
       map_of js' k = (if now - timestamp j > 3600 then None else Some j)) \<and>
    (\<forall>k. map_of js k = None \<longrightarrow> map_of js' k = None) \<and>
    (\<forall>k j name. map_of js k = Some j \<and> now - timestamp j > 3600 \<and> filename j = Some name \<and>
       name \<noteq> [] \<and> path_join dl name \<notin> locked d \<longrightarrow> path_join dl name \<notin> present d') \<and>
    (\<forall>p. p \<in> present d \<and> p \<notin> present d' \<longrightarrow>
       (\<exists>k j name. map_of js k = Some j \<and> now - timestamp j > 3600 \<and> filename j = Some name \<and>
          name \<noteq> [] \<and> p = path_join dl name)) \<and>
    present d' \<subseteq> present d \<and> locked d' = locked d"
proof -
  have sub: "set (map fst js) \<subseteq> dom (map_of js)"
    by (simp add: dom_map_of_conv_image_fst)
  from cleanup_loop_effect [OF assms sub, of now dl d] obtain js' d' where
    r: "cleanup_loop now dl (map fst js) (js, d) = Inr (js', d')" and
    m: "map_of js' = (\<lambda>k. if k \<in> set (map fst js) \<and> expired now js k then None else map_of js k)" and
    p: "present d' = present d - doomed now dl (set (map fst js)) js d" and
    l: "locked d' = locked d"
    by blast
  have c: "cleanup_cycle now dl (js, d) = Inr ((js', d'), 300)"
    using r by (simp add: cleanup_cycle_def)
  have k: "k \<in> set (map fst js)" if "map_of js k = Some j" for k j
    using that sub by (metis domI dom_map_of_conv_image_fst set_map)
  have a1: "\<forall>k j. map_of js k = Some j \<longrightarrow>
       map_of js' k = (if now - timestamp j > 3600 then None else Some j)"
    using m k by (auto simp: expired_def)
  have a2: "\<forall>k. map_of js k = None \<longrightarrow> map_of js' k = None"
    using m by simp
  have dm: "path_join dl name \<in> doomed now dl (set (map fst js)) js d"
    if "map_of js k = Some j" "now - timestamp j > 3600" "filename j = Some name"
       "name \<noteq> []" "path_join dl name \<notin> locked d" for k j name
    unfolding doomed_def using that k [OF that(1)] by blast
  have a3: "\<forall>k j name. map_of js k = Some j \<and> now - timestamp j > 3600 \<and> filename j = Some name \<and>
       name \<noteq> [] \<and> path_join dl name \<notin> locked d \<longrightarrow> path_join dl name \<notin> present d'"
    using p dm by blast
  have a4: "\<forall>p. p \<in> present d \<and> p \<notin> present d' \<longrightarrow>
       (\<exists>k j name. map_of js k = Some j \<and> now - timestamp j > 3600 \<and> filename j = Some name \<and>
          name \<noteq> [] \<and> p = path_join dl name)"
    unfolding p doomed_def by blast
  have a5: "present d' \<subseteq> present d"
    using p by auto
  from c a1 a2 a3 a4 a5 l show ?thesis by blast
qed

theorem cleanup_cycle_effect_witness:
  "distinct (map fst
     [(''a'', \<lparr>status = ''completed'', text' = Some ''Finished!'', progress = Fin 100,
               filename = Some ''a_clip.mp4'', timestamp = 100\<rparr>),
      (''b'', \<lparr>status = ''completed'', text' = Some ''Finished!'', progress = Fin 100,
               filename = Some ''b_clip.mp4'', timestamp = 6400\<rparr>)]) \<and>
   (\<exists>js' d'.
      cleanup_cycle 10000 ''/srv/app/downloads''
        ([(''a'', \<lparr>status = ''completed'', text' = Some ''Finished!'', progress = Fin 100,
                   filename = Some ''a_clip.mp4'', timestamp = 100\<rparr>),
          (''b'', \<lparr>status = ''completed'', text' = Some ''Finished!'', progress = Fin 100,
                   filename = Some ''b_clip.mp4'', timestamp = 6400\<rparr>)],
         \<lparr>present = {''/srv/app/downloads/a_clip.mp4'', ''/srv/app/downloads/b_clip.mp4''},
            locked = {}\<rparr>) = Inr ((js', d'), 300) \<and>
      map_of js' ''a'' = None \<and>
      map_of js' ''b'' =
        Some \<lparr>status = ''completed'', text' = Some ''Finished!'', progress = Fin 100,
              filename = Some ''b_clip.mp4'', timestamp = 6400\<rparr> \<and>
      ''/srv/app/downloads/a_clip.mp4'' \<notin> present d')"
proof -
  let ?ja = "\<lparr>status = ''completed'', text' = Some ''Finished!'', progress = Fin 100,
               filename = Some ''a_clip.mp4'', timestamp = 100\<rparr>"
  let ?jb = "\<lparr>status = ''completed'', text' = Some ''Finished!'', progress = Fin 100,
               filename = Some ''b_clip.mp4'', timestamp = 6400\<rparr>"
  let ?js = "[(''a'', ?ja), (''b'', ?jb)]"
  let ?d = "\<lparr>present = {''/srv/app/downloads/a_clip.mp4'', ''/srv/app/downloads/b_clip.mp4''},
            locked = {}\<rparr>"
  have dist: "distinct (map fst ?js)" by simp
  from cleanup_cycle_effect [OF dist, of 10000 "''/srv/app/downloads''" ?d] obtain js' d' where
    c: "cleanup_cycle 10000 ''/srv/app/downloads'' (?js, ?d) = Inr ((js', d'), 300)" and
    m: "\<forall>k j. map_of ?js k = Some j \<longrightarrow>
       map_of js' k = (if 10000 - timestamp j > 3600 then None else Some j)" and
    f: "\<forall>k j name. map_of ?js k = Some j \<and> 10000 - timestamp j > 3600 \<and> filename j = Some name \<and>
       name \<noteq> [] \<and> path_join ''/srv/app/downloads'' name \<notin> locked ?d \<longrightarrow>
       path_join ''/srv/app/downloads'' name \<notin> present d'"
    by blast
  have ma: "map_of js' ''a'' = None"
    using m [rule_format, of "''a''" ?ja] by simp
  have mb: "map_of js' ''b'' = Some ?jb"
    using m [rule_format, of "''b''" ?jb] by simp
  have pj: "path_join ''/srv/app/downloads'' ''a_clip.mp4'' = ''/srv/app/downloads/a_clip.mp4''"
    by (simp add: path_join_def)
  have fa: "''/srv/app/downloads/a_clip.mp4'' \<notin> present d'"
    using f [rule_format, of "''a''" ?ja "''a_clip.mp4''"] by (simp add: pj)
  from dist c ma mb fa show ?thesis by blast
qed

subsection \<open>Filename and status\<close>

lemma cleanup_cycle_keeps:
  "cleanup_cycle now dl (js, d) = Inr ((js', d'), pause) \<Longrightarrow> map_of js' k = Some j \<Longrightarrow>
     map_of js k = Some j"
  by (auto simp: cleanup_cycle_def split: sum.splits dest: cleanup_loop_keeps)

lemma start_download_ops:
  "start_download new_id req = (resp, ops, tasks) \<Longrightarrow> op \<in> set ops \<Longrightarrow>
     op_filename op = None \<and> op_status op = ''starting''"
  by (auto simp: start_download_def Let_def split: option.splits if_splits)


lemma exec_op_ok:
  assumes "op_ok op" and "\<forall>k j. map_of js k = Some j \<longrightarrow> job_ok j"
  shows "\<forall>k j. map_of (exec_op now op js) k = Some j \<longrightarrow> job_ok j"
  using assms by (auto simp: map_of_exec_op op_ok_def job_ok_def split: if_splits)

lemma foldl_exec_op_ok:
  "\<forall>op \<in> set ops. op_ok op \<Longrightarrow> \<forall>k j. map_of js k = Some j \<longrightarrow> job_ok j \<Longrightarrow>
     \<forall>k j. map_of (foldl (\<lambda>js op. exec_op now op js) js ops) k = Some j \<longrightarrow> job_ok j"
proof (induction ops arbitrary: js)
  case Nil
  then show ?case by simp
next
  case (Cons op ops)
  have 1: "op_ok op" and 2: "\<forall>op \<in> set ops. op_ok op"
    using Cons.prems(1) by simp_all
  from Cons.IH [OF 2 exec_op_ok [OF 1 Cons.prems(2)]] show ?case by simp
qed

lemma start_download_ops_ok:
  "start_download new_id req = (resp, ops, tasks) \<Longrightarrow> \<forall>op \<in> set ops. op_ok op"
  using start_download_ops [of new_id req resp ops tasks] by (simp add: op_ok_def)

lemma download_task_ok:
  "\<forall>op \<in> set (download_task yt_dlp download_folder cookies job_id url format_opts). op_ok op"
  unfolding op_ok_def using download_task_filename by blast

lemma step_consistent:
  assumes "step s t" and "consistent s"
  shows "consistent t"
  using assms(1)
proof (cases rule: step.cases)
  case (dispatch new_id req resp ops tasks now yt_dlp download_folder cookies)
  have js: "\<forall>k j. map_of (store s) k = Some j \<longrightarrow> job_ok j"
    using assms(2) by (simp add: consistent_def)
  have st: "\<forall>k j. map_of (store t) k = Some j \<longrightarrow> job_ok j"
    unfolding dispatch(1)
    using foldl_exec_op_ok [OF start_download_ops_ok [OF dispatch(2)] js] by simp
  have w: "\<forall>op \<in> set ws. op_ok op" if "ws \<in> set (workers t)" for ws
  proof -
    from that have "ws \<in> set (workers s) \<or>
        (\<exists>job_id url format_opts.
           ws = download_task yt_dlp download_folder cookies job_id url format_opts)"
      unfolding dispatch(1) by auto
    then show ?thesis
    proof
      assume "ws \<in> set (workers s)"
      with assms(2) show ?thesis by (simp add: consistent_def)
    next
      assume "\<exists>job_id url format_opts.
           ws = download_task yt_dlp download_folder cookies job_id url format_opts"
      then show ?thesis using download_task_ok by blast
    qed
  qed
  from st w show ?thesis unfolding consistent_def by blast
next
  case (work i op rest now)
  have m: "op # rest \<in> set (workers s)"
    using work(2,3) nth_mem by fastforce
  have o: "op_ok op" and r: "\<forall>x \<in> set rest. op_ok x"
    using assms(2) m unfolding consistent_def by fastforce+
  have js: "\<forall>k j. map_of (store s) k = Some j \<longrightarrow> job_ok j"
    using assms(2) by (simp add: consistent_def)
  have st: "\<forall>k j. map_of (store t) k = Some j \<longrightarrow> job_ok j"
    unfolding work(1) using exec_op_ok [OF o js] by simp
  have sub: "set (workers t) \<subseteq> insert rest (set (workers s))"
    unfolding work(1) by (simp add: set_update_subset_insert)
  have w: "\<forall>op \<in> set ws. op_ok op" if "ws \<in> set (workers t)" for ws
  proof -
    from that sub have "ws = rest \<or> ws \<in> set (workers s)" by blast
    then show ?thesis
    proof
      assume "ws = rest" with r show ?thesis by simp
    next
      assume "ws \<in> set (workers s)"
      with assms(2) show ?thesis by (simp add: consistent_def)
    qed
  qed
  from st w show ?thesis unfolding consistent_def by blast
next
  case (sweep now download_folder d js' d' pause)
  have js: "\<forall>k j. map_of (store s) k = Some j \<longrightarrow> job_ok j"
    and ws: "\<forall>ops \<in> set (workers s). \<forall>op \<in> set ops. op_ok op"
    using assms(2) by (simp_all add: consistent_def)
  have st: "\<forall>k j. map_of js' k = Some j \<longrightarrow> job_ok j"
    using cleanup_cycle_keeps [OF sweep(2)] js by blast
  from st ws show ?thesis unfolding sweep(1) consistent_def by simp
qed

lemma reachable_consistent: "reachable s \<Longrightarrow> consistent s"
proof (induction rule: reachable.induct)
  case initial
  show ?case by (simp add: consistent_def)
next
  case (after s t)
  then show ?case using step_consistent by blast
qed

text \<open>
  C1. In every state the threads can reach, every record of the store has its filename
  set exactly when its status is \<open>completed\<close>: the \<open>starting\<close> write of the
  handler, the \<open>downloading\<close> and \<open>processing\<close> writes of the hook and the \<open>error\<close>
  write of the worker carry no filename, the \<open>completed\<close> write of the worker carries
  one, and the cleanup thread only removes records.
\<close>

theorem filename_iff_completed:
  "reachable s \<Longrightarrow> map_of (store s) job_id = Some j \<Longrightarrow>
     (filename j \<noteq> None) = (status j = ''completed'')"
  using reachable_consistent [of s] unfolding consistent_def job_ok_def by blast


theorem filename_iff_completed_witness:
  "reachable
     \<lparr>store = [(''j1'', \<lparr>status = ''completed'', text' = Some ''Finished!'', progress = Fin 100,
                          filename = Some ''j1_clip.webm'', timestamp = 2\<rparr>)],
      workers = [[]]\<rparr> \<and>
   map_of (store
     \<lparr>store = [(''j1'', \<lparr>status = ''completed'', text' = Some ''Finished!'', progress = Fin 100,
                          filename = Some ''j1_clip.webm'', timestamp = 2\<rparr>)],
      workers = [[]]\<rparr>) ''j1'' =
     Some \<lparr>status = ''completed'', text' = Some ''Finished!'', progress = Fin 100,
           filename = Some ''j1_clip.webm'', timestamp = 2\<rparr> \<and>
   ((filename \<lparr>status = ''completed'', text' = Some ''Finished!'', progress = Fin 100,
               filename = Some ''j1_clip.webm'', timestamp = 2\<rparr> \<noteq> None) =
    (status \<lparr>status = ''completed'', text' = Some ''Finished!'', progress = Fin 100,
             filename = Some ''j1_clip.webm'', timestamp = 2\<rparr> = ''completed''))"
proof -
  let ?req = "\<lparr>req_url = Some ''https://example/video'', req_type = Some ''video'',
               req_format_id = None\<rparr>"
  let ?fo = "[(''format_id'', PStr ''bestvideo+bestaudio/best'')]"
  let ?start = "Update_job_status ''j1'' ''starting'' (Some ''Starting process...'') (Fin 0) None"
  let ?done = "Update_job_status ''j1'' ''completed'' (Some ''Finished!'') (Fin 100)
                 (Some ''j1_clip.webm'')"
  let ?s0 = "\<lparr>store = [], workers = []\<rparr>"
  let ?s1 = "\<lparr>store = [(''j1'', \<lparr>status = ''starting'', text' = Some ''Starting process...'',
                                 progress = Fin 0, filename = None, timestamp = 1\<rparr>)],
              workers = [[?done]]\<rparr>"
  let ?j = "\<lparr>status = ''completed'', text' = Some ''Finished!'', progress = Fin 100,
             filename = Some ''j1_clip.webm'', timestamp = 2\<rparr>"
  let ?s2 = "\<lparr>store = [(''j1'', ?j)], workers = [[]]\<rparr>"
  have d: "start_download ''j1'' ?req =
             (Ok ''j1'', [?start], [(''j1'', ''https://example/video'', ?fo)])"
    by (simp add: start_download_def Let_def)
  have t: "download_task ydl_quiet ''/srv/app/downloads'' False ''j1'' ''https://example/video'' ?fo
             = [?done]"
    by (simp add: download_task_def ydl_quiet_def task_body_def hook_writes_def dict_get_def
        basename_def Let_def)
  have "step ?s0 ?s1"
    using step.dispatch [OF d, where s = ?s0 and now = 1 and yt_dlp = ydl_quiet
                           and download_folder = "''/srv/app/downloads''" and cookies = False]
    by (simp add: t update_job_status_def)
  moreover have "step ?s1 ?s2"
    using step.work [where s = ?s1 and i = 0 and op = ?done and rest = "[]" and now = 2]
    by (simp add: update_job_status_def)
  ultimately have r: "reachable ?s2"
    using reachable.initial reachable.after by blast
  have m: "map_of (store ?s2) ''j1'' = Some ?j" by simp
  from r m filename_iff_completed [OF r m] show ?thesis by blast
qed

subsection \<open>The formats endpoint\<close>

lemma collect_formats_origin:
  "e \<in> set (collect_formats fs) \<Longrightarrow>
     \<exists>f \<in> set fs. \<exists>res. vcodec f \<noteq> Some ''none'' \<and> height f = Some res \<and>
       res \<in> set [360, 480, 720, 1080, 1440, 2160] \<and>
       e = \<lparr>e_id = format_id f, e_ext = ext f, e_quality = str_int res @ ''p'',
             e_note = (case format_note f of None \<Rightarrow> [] | Some n \<Rightarrow> n),
             e_filesize = py_or (filesize_approx f) (filesize f),
             e_has_audio = (acodec f \<noteq> Some ''none'')\<rparr>"
proof (induction fs)
  case Nil
  then show ?case by simp
next
  case (Cons f fs)
  show ?case
  proof (cases "vcodec f \<noteq> Some ''none'' \<and>
                (\<exists>res. height f = Some res \<and> res \<noteq> 0 \<and> res \<in> set [360, 480, 720, 1080, 1440, 2160])")
    case True
    then obtain res where h: "height f = Some res" "res \<noteq> 0"
      "res \<in> set [360, 480, 720, 1080, 1440, 2160]" and v: "vcodec f \<noteq> Some ''none''"
      by blast
    have c: "collect_formats (f # fs) =
        \<lparr>e_id = format_id f, e_ext = ext f, e_quality = str_int res @ ''p'',
             e_note = (case format_note f of None \<Rightarrow> [] | Some n \<Rightarrow> n),
             e_filesize = py_or (filesize_approx f) (filesize f),
             e_has_audio = (acodec f \<noteq> Some ''none'')\<rparr> # collect_formats fs"
      using h v by (simp add: Let_def)
    from Cons.prems [unfolded c] consider
      "e = \<lparr>e_id = format_id f, e_ext = ext f, e_quality = str_int res @ ''p'',
             e_note = (case format_note f of None \<Rightarrow> [] | Some n \<Rightarrow> n),
             e_filesize = py_or (filesize_approx f) (filesize f),
             e_has_audio = (acodec f \<noteq> Some ''none'')\<rparr>" | "e \<in> set (collect_formats fs)"
      by auto
    then show ?thesis
    proof cases
      case 1
      with h v show ?thesis by (intro bexI [of _ f] exI [of _ res]) simp_all
    next
      case 2
      from Cons.IH [OF 2] show ?thesis by auto
    qed
  next
    case False
    then have "collect_formats (f # fs) = collect_formats fs"
      by (auto split: option.splits)
    with Cons show ?thesis by auto
  qed
qed

lemma collect_formats_complete:
  "f \<in> set fs \<Longrightarrow> vcodec f \<noteq> Some ''none'' \<Longrightarrow> height f = Some res \<Longrightarrow>
   res \<in> set [360, 480, 720, 1080, 1440, 2160] \<Longrightarrow>
     \<lparr>e_id = format_id f, e_ext = ext f, e_quality = str_int res @ ''p'',
       e_note = (case format_note f of None \<Rightarrow> [] | Some n \<Rightarrow> n),
       e_filesize = py_or (filesize_approx f) (filesize f),
       e_has_audio = (acodec f \<noteq> Some ''none'')\<rparr> \<in> set (collect_formats fs)"
proof (induction fs)
  case Nil
  then show ?case by simp
next
  case (Cons g fs)
  have nz: "res \<noteq> 0" using Cons.prems(4) by auto
  show ?case
  proof (cases "f = g")
    case True
    with Cons.prems nz show ?thesis by (simp add: Let_def)
  next
    case False
    with Cons have "\<lparr>e_id = format_id f, e_ext = ext f, e_quality = str_int res @ ''p'',
       e_note = (case format_note f of None \<Rightarrow> [] | Some n \<Rightarrow> n),
       e_filesize = py_or (filesize_approx f) (filesize f),
       e_has_audio = (acodec f \<noteq> Some ''none'')\<rparr> \<in> set (collect_formats fs)" by simp
    then show ?thesis by (simp add: Let_def split: option.splits)
  qed
qed

lemma std_quality_key:
  "\<forall>res \<in> set [360, 480, 720, 1080, 1440, 2160].
     py_int (remove_char CHR ''p'' (str_int res @ ''p'')) = Some res"
  by code_simp

lemma those_map_total:
  "\<forall>x \<in> set xs. f x \<noteq> None \<Longrightarrow> those (map f xs) = Some (map (\<lambda>x. the (f x)) xs)"
  by (induction xs) auto

lemma zip_map_same: "zip (map f xs) xs = map (\<lambda>x. (f x, x)) xs"
  by (induction xs) auto

lemma sort_formats_total:
  assumes "\<forall>e \<in> set es. quality_key e \<noteq> None"
  shows "\<exists>ss. sort_formats es = Inr ss \<and> set ss = set es \<and>
           sorted (map (\<lambda>e. - the (quality_key e)) ss)"
proof -
  let ?K = "\<lambda>e. the (quality_key e)"
  let ?zs = "sort_key (\<lambda>kf. - fst kf) (map (\<lambda>e. (?K e, e)) es)"
  have t: "those (map quality_key es) = Some (map ?K es)"
    using those_map_total [OF assms] .
  have s: "sort_formats es = Inr (map snd ?zs)"
    by (simp add: sort_formats_def t zip_map_same)
  have mem: "fst p = ?K (snd p)" if "p \<in> set ?zs" for p
    using that by auto
  have "set (map snd ?zs) = snd ` set (map (\<lambda>e. (?K e, e)) es)"
    by simp
  also have "\<dots> = set es"
    by (simp add: image_image)
  finally have st: "set (map snd ?zs) = set es" .
  have "sorted (map (\<lambda>kf. - fst kf) ?zs)"
    by (rule sorted_sort_key)
  moreover have "map (\<lambda>kf. - fst kf) ?zs = map (\<lambda>e. - ?K e) (map snd ?zs)"
    using mem by (simp add: map_idI cong: map_cong)
  ultimately have "sorted (map (\<lambda>e. - ?K e) (map snd ?zs))"
    by simp
  with s st show ?thesis by blast
qed

lemma first_index_Some:
  "first_index P xs = Some i \<Longrightarrow> i < length xs \<and> P (xs ! i)"
proof (induction xs arbitrary: i)
  case Nil
  then show ?case by simp
next
  case (Cons x xs)
  then show ?case by (cases "P x") auto
qed

lemma first_index_exists:
  "\<exists>x \<in> set xs. P x \<Longrightarrow> \<exists>i. first_index P xs = Some i"
  by (induction xs) auto

lemma firsts_snoc:
  "firsts (xs @ [x]) = (if x \<in> set xs then firsts xs else firsts xs @ [x])"
  by (simp add: firsts_def)

lemma set_firsts: "set (firsts xs) = set xs"
  by (simp add: firsts_def)

lemma distinct_firsts: "distinct (firsts xs)"
  by (simp add: firsts_def)

lemma sorted_wrt_remdups: "sorted_wrt P xs \<Longrightarrow> sorted_wrt P (remdups xs)"
  by (induction xs) auto

lemma sorted_wrt_firsts: "sorted_wrt P xs \<Longrightarrow> sorted_wrt P (firsts xs)"
proof -
  assume "sorted_wrt P xs"
  then have "sorted_wrt (\<lambda>a b. P b a) (rev xs)"
    by (simp add: sorted_wrt_rev)
  then have "sorted_wrt (\<lambda>a b. P b a) (remdups (rev xs))"
    by (rule sorted_wrt_remdups)
  then show ?thesis
    by (simp add: firsts_def sorted_wrt_rev)
qed

lemma sorted_wrt_distinct:
  "sorted_wrt P xs \<Longrightarrow> distinct xs \<Longrightarrow> sorted_wrt (\<lambda>a b. P a b \<and> a \<noteq> b) xs"
  by (induction xs) auto

lemma dedup_inv_quality:
  assumes "dedup_inv pre (u, seen)"
  shows "distinct (map e_quality u)" and "e_quality ` set u = e_quality ` set pre"
    and "(seen q = None) = (q \<notin> e_quality ` set pre)"
proof -
  have m: "map e_quality u = firsts (map e_quality pre)"
    using assms by (simp add: dedup_inv_def)
  show "distinct (map e_quality u)"
    by (simp add: m distinct_firsts)
  have "set (map e_quality u) = set (map e_quality pre)"
    by (simp add: m set_firsts)
  then show eq: "e_quality ` set u = e_quality ` set pre"
    by simp
  have s: "\<forall>q g. (seen q = Some g) = (g \<in> set u \<and> e_quality g = q)"
    using assms by (simp add: dedup_inv_def)
  have "(seen q = None) = (q \<notin> e_quality ` set u)"
  proof (cases "seen q")
    case None
    have "q \<notin> e_quality ` set u"
    proof
      assume "q \<in> e_quality ` set u"
      then obtain g where "g \<in> set u" "e_quality g = q" by auto
      with s have "seen q = Some g" by blast
      with None show False by simp
    qed
    with None show ?thesis by simp
  next
    case (Some g)
    with s have "g \<in> set u \<and> e_quality g = q" by blast
    then have "q \<in> e_quality ` set u" by auto
    with Some show ?thesis by simp
  qed
  with eq show "(seen q = None) = (q \<notin> e_quality ` set pre)" by simp
qed

lemma dedup_step_new:
  assumes inv: "dedup_inv pre (u, seen)" and n: "seen (e_quality f) = None"
  shows "dedup_step (u, seen) f = Inr (u @ [f], seen(e_quality f \<mapsto> f)) \<and>
         dedup_inv (pre @ [f]) (u @ [f], seen(e_quality f \<mapsto> f))"
proof -
  let ?q = "e_quality f"
  have m: "map e_quality u = firsts (map e_quality pre)"
    and s: "\<forall>q g. (seen q = Some g) = (g \<in> set u \<and> e_quality g = q)"
    and sub: "set u \<subseteq> set pre"
    and au: "\<forall>g \<in> set pre. e_has_audio g \<longrightarrow> (\<exists>x \<in> set u. e_quality x = e_quality g \<and> e_has_audio x)"
    using inv by (simp_all add: dedup_inv_def)
  have fresh: "?q \<notin> e_quality ` set pre"
    using dedup_inv_quality(3) [OF inv, of ?q] n by simp
  have nou: "\<forall>g \<in> set u. e_quality g \<noteq> ?q"
  proof
    fix g assume "g \<in> set u"
    with sub have "e_quality g \<in> e_quality ` set pre" by blast
    with fresh show "e_quality g \<noteq> ?q" by metis
  qed
  have 1: "map e_quality (u @ [f]) = firsts (map e_quality (pre @ [f]))"
    using fresh m by (simp add: firsts_snoc)
  have 2: "\<forall>q g. ((seen(?q \<mapsto> f)) q = Some g) = (g \<in> set (u @ [f]) \<and> e_quality g = q)"
    using s nou by auto
  have 3: "set (u @ [f]) \<subseteq> set (pre @ [f])"
    using sub by auto
  have 4: "\<forall>g \<in> set (pre @ [f]). e_has_audio g \<longrightarrow>
             (\<exists>x \<in> set (u @ [f]). e_quality x = e_quality g \<and> e_has_audio x)"
    using au by auto
  have "dedup_step (u, seen) f = Inr (u @ [f], seen(?q \<mapsto> f))"
    using n by (simp add: dedup_step_def Let_def)
  moreover have "dedup_inv (pre @ [f]) (u @ [f], seen(?q \<mapsto> f))"
    unfolding dedup_inv_def fst_conv snd_conv using 1 2 3 4 by blast
  ultimately show ?thesis by simp
qed

lemma dedup_step_keep:
  assumes inv: "dedup_inv pre (u, seen)" and g: "seen (e_quality f) = Some g"
    and k: "\<not> (e_has_audio f \<and> \<not> e_has_audio g)"
  shows "dedup_step (u, seen) f = Inr (u, seen) \<and> dedup_inv (pre @ [f]) (u, seen)"
proof -
  let ?q = "e_quality f"
  have m: "map e_quality u = firsts (map e_quality pre)"
    and s: "\<forall>q g. (seen q = Some g) = (g \<in> set u \<and> e_quality g = q)"
    and sub: "set u \<subseteq> set pre"
    and au: "\<forall>g \<in> set pre. e_has_audio g \<longrightarrow> (\<exists>x \<in> set u. e_quality x = e_quality g \<and> e_has_audio x)"
    using inv by (simp_all add: dedup_inv_def)
  have old: "?q \<in> e_quality ` set pre"
    using dedup_inv_quality(3) [OF inv, of ?q] g by simp
  have gu: "g \<in> set u" "e_quality g = ?q"
    using s g by blast+
  have 1: "map e_quality u = firsts (map e_quality (pre @ [f]))"
    using old m by (simp add: firsts_snoc)
  have 3: "set u \<subseteq> set (pre @ [f])"
    using sub by auto
  have 4: "\<forall>x \<in> set (pre @ [f]). e_has_audio x \<longrightarrow>
             (\<exists>y \<in> set u. e_quality y = e_quality x \<and> e_has_audio y)"
  proof (intro ballI impI)
    fix x assume x: "x \<in> set (pre @ [f])" "e_has_audio x"
    show "\<exists>y \<in> set u. e_quality y = e_quality x \<and> e_has_audio y"
    proof (cases "x = f")
      case True
      with x k have "e_has_audio g" by simp
      with gu True show ?thesis by blast
    next
      case False
      with x au show ?thesis by simp
    qed
  qed
  have "dedup_step (u, seen) f = Inr (u, seen)"
    using g k by (auto simp: dedup_step_def Let_def)
  moreover have "dedup_inv (pre @ [f]) (u, seen)"
    unfolding dedup_inv_def fst_conv snd_conv using 1 s 3 4 by blast
  ultimately show ?thesis by simp
qed


lemma dedup_step_replace:
  assumes inv: "dedup_inv pre (u, seen)" and g: "seen (e_quality f) = Some g"
    and k: "e_has_audio f" "\<not> e_has_audio g"
  shows "\<exists>idx. dedup_step (u, seen) f = Inr (u[idx := f], seen(e_quality f \<mapsto> f)) \<and>
           dedup_inv (pre @ [f]) (u[idx := f], seen(e_quality f \<mapsto> f))"
proof -
  let ?q = "e_quality f"
  have m: "map e_quality u = firsts (map e_quality pre)"
    and s: "\<forall>q g. (seen q = Some g) = (g \<in> set u \<and> e_quality g = q)"
    and sub: "set u \<subseteq> set pre"
    and au: "\<forall>g \<in> set pre. e_has_audio g \<longrightarrow> (\<exists>x \<in> set u. e_quality x = e_quality g \<and> e_has_audio x)"
    using inv by (simp_all add: dedup_inv_def)
  have dq: "distinct (map e_quality u)"
    using dedup_inv_quality(1) [OF inv] .
  then have du: "distinct u"
    by (simp add: distinct_map)
  have old: "?q \<in> e_quality ` set pre"
    using dedup_inv_quality(3) [OF inv, of ?q] g by simp
  have gu: "g \<in> set u" "e_quality g = ?q"
    using s g by blast+
  then obtain idx where fi: "first_index (\<lambda>x. e_quality x = ?q) u = Some idx"
    using first_index_exists [of u "\<lambda>x. e_quality x = ?q"] by blast
  from first_index_Some [OF fi] have il: "idx < length u" and iq: "e_quality (u ! idx) = ?q"
    by simp_all
  have same: "x = y" if "x \<in> set u" "y \<in> set u" "e_quality x = e_quality y" for x y
    using dq that by (meson distinct_map inj_onD)
  have ig: "u ! idx = g"
    using same [of "u ! idx" g] il iq gu by simp
  have su: "set (u[idx := f]) = insert f (set u - {g})"
    using set_update_distinct [OF du il, of f] ig by simp
  have "map e_quality (u[idx := f]) = (map e_quality u)[idx := ?q]"
    by (simp add: map_update)
  also have "\<dots> = map e_quality u"
    using il iq by (metis list_update_id nth_map)
  finally have mq: "map e_quality (u[idx := f]) = map e_quality u" .
  have 1: "map e_quality (u[idx := f]) = firsts (map e_quality (pre @ [f]))"
    using old m mq by (simp add: firsts_snoc)
  have 2: "\<forall>q x. ((seen(?q \<mapsto> f)) q = Some x) = (x \<in> set (u[idx := f]) \<and> e_quality x = q)"
  proof (intro allI)
    fix q x
    show "((seen(?q \<mapsto> f)) q = Some x) = (x \<in> set (u[idx := f]) \<and> e_quality x = q)"
    proof (cases "q = ?q")
      case True
      have "(x \<in> set (u[idx := f]) \<and> e_quality x = ?q) = (x = f)"
      proof
        assume a: "x \<in> set (u[idx := f]) \<and> e_quality x = ?q"
        show "x = f"
        proof (rule ccontr)
          assume "x \<noteq> f"
          with a su have "x \<in> set u" "x \<noteq> g" by auto
          with same [of x g] gu a show False by simp
        qed
      next
        assume "x = f"
        with su show "x \<in> set (u[idx := f]) \<and> e_quality x = ?q" by simp
      qed
      with True show ?thesis by auto
    next
      case False
      have "(x \<in> set (u[idx := f]) \<and> e_quality x = q) = (x \<in> set u \<and> e_quality x = q)"
        using False su gu by auto
      with False s show ?thesis by simp
    qed
  qed
  have 3: "set (u[idx := f]) \<subseteq> set (pre @ [f])"
    using su sub by auto
  have 4: "\<forall>x \<in> set (pre @ [f]). e_has_audio x \<longrightarrow>
             (\<exists>y \<in> set (u[idx := f]). e_quality y = e_quality x \<and> e_has_audio y)"
  proof (intro ballI impI)
    fix x assume x: "x \<in> set (pre @ [f])" "e_has_audio x"
    show "\<exists>y \<in> set (u[idx := f]). e_quality y = e_quality x \<and> e_has_audio y"
    proof (cases "x = f")
      case True
      with su k show ?thesis by auto
    next
      case False
      with x au obtain y where y: "y \<in> set u" "e_quality y = e_quality x" "e_has_audio y"
        by auto
      with k have "y \<noteq> g" by auto
      with y su show ?thesis by auto
    qed
  qed
  have "dedup_step (u, seen) f = Inr (u[idx := f], seen(?q \<mapsto> f))"
    using g k fi by (simp add: dedup_step_def Let_def)
  moreover have "dedup_inv (pre @ [f]) (u[idx := f], seen(?q \<mapsto> f))"
    unfolding dedup_inv_def fst_conv snd_conv using 1 2 3 4 by blast
  ultimately show ?thesis by blast
qed

lemma dedup_step_inv:
  assumes "dedup_inv pre st"
  shows "\<exists>st'. dedup_step st f = Inr st' \<and> dedup_inv (pre @ [f]) st'"
proof -
  obtain u seen where st: "st = (u, seen)" by (cases st)
  show ?thesis
  proof (cases "seen (e_quality f)")
    case None
    with dedup_step_new [of pre u seen f] assms st show ?thesis by blast
  next
    case (Some g)
    show ?thesis
    proof (cases "e_has_audio f \<and> \<not> e_has_audio g")
      case True
      with dedup_step_replace [of pre u seen f g] assms st Some show ?thesis by blast
    next
      case False
      with dedup_step_keep [of pre u seen f g] assms st Some show ?thesis by blast
    qed
  qed
qed

lemma dedup_loop_inv:
  "dedup_inv pre st \<Longrightarrow> \<exists>st'. dedup_loop st fs = Inr st' \<and> dedup_inv (pre @ fs) st'"
proof (induction fs arbitrary: pre st)
  case Nil
  then show ?case by simp
next
  case (Cons f fs)
  from dedup_step_inv [OF Cons.prems, of f] obtain st1 where
    1: "dedup_step st f = Inr st1" and 2: "dedup_inv (pre @ [f]) st1" by blast
  from Cons.IH [OF 2] obtain st' where
    "dedup_loop st1 fs = Inr st'" "dedup_inv ((pre @ [f]) @ fs) st'" by blast
  with 1 show ?case by simp
qed

lemma dedup_inv_start: "dedup_inv [] ([], Map.empty)"
  by (simp add: dedup_inv_def firsts_def)

lemma collected_quality:
  assumes "e \<in> set (collect_formats fs)"
  shows "\<exists>res \<in> set [360, 480, 720, 1080, 1440, 2160].
           e_quality e = str_int res @ ''p'' \<and> quality_key e = Some res"
proof -
  from collect_formats_origin [OF assms] obtain f :: ytformat and res where
    r: "res \<in> set [360, 480, 720, 1080, 1440, 2160]" and
    e: "e = \<lparr>e_id = format_id f, e_ext = ext f, e_quality = str_int res @ ''p'',
             e_note = (case format_note f of None \<Rightarrow> [] | Some n \<Rightarrow> n),
             e_filesize = py_or (filesize_approx f) (filesize f),
             e_has_audio = (acodec f \<noteq> Some ''none'')\<rparr>"
    by blast
  have q: "e_quality e = str_int res @ ''p''"
    by (subst e) simp
  from std_quality_key r have "py_int (remove_char CHR ''p'' (str_int res @ ''p'')) = Some res"
    by blast
  with q have "quality_key e = Some res"
    by (simp add: quality_key_def)
  with r q show ?thesis by blast
qed

lemma list_formats_result:
  "\<exists>u seen ss.
     list_formats i = Inr \<lparr>r_title = title i, r_thumbnail = thumbnail i,
                           r_formats = map render u\<rparr> \<and>
     set ss = set (collect_formats (case formats i of None \<Rightarrow> [] | Some fs \<Rightarrow> fs)) \<and>
     sorted (map (\<lambda>e. - the (quality_key e)) ss) \<and>
     dedup_inv ss (u, seen)"
proof -
  let ?es = "collect_formats (case formats i of None \<Rightarrow> [] | Some fs \<Rightarrow> fs)"
  have "\<forall>e \<in> set ?es. quality_key e \<noteq> None"
  proof
    fix e assume "e \<in> set ?es"
    from collected_quality [OF this] obtain res where "quality_key e = Some res" by blast
    then show "quality_key e \<noteq> None" by simp
  qed
  from sort_formats_total [OF this] obtain ss where
    s: "sort_formats ?es = Inr ss" and st: "set ss = set ?es"
    and so: "sorted (map (\<lambda>e. - the (quality_key e)) ss)"
    by blast
  from dedup_loop_inv [OF dedup_inv_start, of ss] obtain st' where
    d: "dedup_loop ([], Map.empty) ss = Inr st'" and inv: "dedup_inv ss st'"
    by auto
  obtain u seen where u: "st' = (u, seen)" by (cases st')
  have "list_formats i = Inr \<lparr>r_title = title i, r_thumbnail = thumbnail i,
                           r_formats = map render u\<rparr>"
    by (simp add: list_formats_def s d u)
  with st so inv u show ?thesis by blast
qed


lemma get_formats_Ok:
  assumes "get_formats yt_dlp cookies url = Ok reply"
  shows "\<exists>u i. url = Some u \<and> u \<noteq> [] \<and>
           extracted (yt_dlp (ydl_opts_formats cookies) u False) = Inr i \<and>
           list_formats i = Inr reply"
proof -
  from assms obtain u where u: "url = Some u" "u \<noteq> []"
    by (cases url) (auto simp: get_formats_def split: if_splits)
  let ?run = "yt_dlp (ydl_opts_formats cookies) u False"
  from assms u obtain x where o: "opened ?run = Inr x"
    by (cases "opened ?run") (simp_all add: get_formats_def Let_def)
  from assms u o obtain y where c: "closed ?run = Inr y"
    by (cases "closed ?run") (simp_all add: get_formats_def Let_def)
  from assms u o c obtain i where i: "extracted ?run = Inr i"
    by (cases "extracted ?run") (simp_all add: get_formats_def Let_def)
  from assms u o c i have "list_formats i = Inr reply"
    by (cases "list_formats i") (simp_all add: get_formats_def Let_def)
  with u i show ?thesis by blast
qed

text \<open>
  C9. Every entry of a response of the formats endpoint comes from a format of the
  downloader's listing with the same identifier. When that format has no audio
  (\<open>acodec\<close> is \<open>'none'\<close>) the entry has ext \<open>mp4\<close>, whatever the ext of the format,
  note \<open>HD (Video Only)\<close> and \<open>needs_merge\<close> true; otherwise it has the ext of the
  format, note \<open>Video + Audio\<close> and \<open>needs_merge\<close> false.
\<close>

theorem rendered_formats:
  assumes "get_formats yt_dlp cookies url = Ok reply" and "x \<in> set (r_formats reply)"
  shows "\<exists>u i. url = Some u \<and>
           extracted (yt_dlp (ydl_opts_formats cookies) u False) = Inr i \<and>
           (\<exists>f \<in> set (case formats i of None \<Rightarrow> [] | Some fs \<Rightarrow> fs).
              o_id x = format_id f \<and>
              (acodec f = Some ''none'' \<longrightarrow>
                 o_ext x = Some ''mp4'' \<and> o_note x = ''HD (Video Only)'' \<and> o_needs_merge x) \<and>
              (acodec f \<noteq> Some ''none'' \<longrightarrow>
                 o_ext x = ext f \<and> o_note x = ''Video + Audio'' \<and> \<not> o_needs_merge x))"
proof -
  from get_formats_Ok [OF assms(1)] obtain u i where
    u: "url = Some u" and i: "extracted (yt_dlp (ydl_opts_formats cookies) u False) = Inr i"
    and l: "list_formats i = Inr reply"
    by blast
  let ?fs = "case formats i of None \<Rightarrow> [] | Some fs \<Rightarrow> fs"
  from list_formats_result [of i] obtain us seen ss where
    r: "list_formats i = Inr \<lparr>r_title = title i, r_thumbnail = thumbnail i,
                              r_formats = map render us\<rparr>"
    and st: "set ss = set (collect_formats ?fs)" and inv: "dedup_inv ss (us, seen)"
    by blast
  from l r have "r_formats reply = map render us" by auto
  with assms(2) obtain e where e: "e \<in> set us" and x: "x = render e" by auto
  from inv have "set us \<subseteq> set ss" by (simp add: dedup_inv_def)
  with e st have "e \<in> set (collect_formats ?fs)" by blast
  from collect_formats_origin [OF this] obtain f :: ytformat and res where
    f: "f \<in> set ?fs" and
    ef: "e = \<lparr>e_id = format_id f, e_ext = ext f, e_quality = str_int res @ ''p'',
             e_note = (case format_note f of None \<Rightarrow> [] | Some n \<Rightarrow> n),
             e_filesize = py_or (filesize_approx f) (filesize f),
             e_has_audio = (acodec f \<noteq> Some ''none'')\<rparr>"
    by blast
  have "o_id x = format_id f \<and>
        (acodec f = Some ''none'' \<longrightarrow>
           o_ext x = Some ''mp4'' \<and> o_note x = ''HD (Video Only)'' \<and> o_needs_merge x) \<and>
        (acodec f \<noteq> Some ''none'' \<longrightarrow>
           o_ext x = ext f \<and> o_note x = ''Video + Audio'' \<and> \<not> o_needs_merge x)"
    unfolding x ef by (simp add: render_def)
  with u i f show ?thesis by blast
qed


lemma listing_reply:
  "get_formats ydl_listing False (Some ''https://example/video'') =
     Ok \<lparr>r_title = Some ''clip'', r_thumbnail = None,
         r_formats =
           [\<lparr>o_id = Some ''313'', o_ext = Some ''mp4'', o_quality = ''2160p'',
              o_note = ''HD (Video Only)'', o_filesize = Some 9000, o_needs_merge = True\<rparr>,
            \<lparr>o_id = Some ''22'', o_ext = Some ''mp4'', o_quality = ''720p'',
              o_note = ''Video + Audio'', o_filesize = Some 4000, o_needs_merge = False\<rparr>,
            \<lparr>o_id = Some ''18'', o_ext = Some ''mp4'', o_quality = ''360p'',
              o_note = ''Video + Audio'', o_filesize = Some 1000, o_needs_merge = False\<rparr>]\<rparr>"
  by code_simp

theorem rendered_formats_witness:
  "get_formats ydl_listing False (Some ''https://example/video'') =
     Ok \<lparr>r_title = Some ''clip'', r_thumbnail = None,
         r_formats =
           [\<lparr>o_id = Some ''313'', o_ext = Some ''mp4'', o_quality = ''2160p'',
              o_note = ''HD (Video Only)'', o_filesize = Some 9000, o_needs_merge = True\<rparr>,
            \<lparr>o_id = Some ''22'', o_ext = Some ''mp4'', o_quality = ''720p'',
              o_note = ''Video + Audio'', o_filesize = Some 4000, o_needs_merge = False\<rparr>,
            \<lparr>o_id = Some ''18'', o_ext = Some ''mp4'', o_quality = ''360p'',
              o_note = ''Video + Audio'', o_filesize = Some 1000, o_needs_merge = False\<rparr>]\<rparr> \<and>
   (\<exists>u i. Some ''https://example/video'' = Some u \<and>
      extracted (ydl_listing (ydl_opts_formats False) u False) = Inr i \<and>
      (\<exists>f \<in> set (case formats i of None \<Rightarrow> [] | Some fs \<Rightarrow> fs).
         Some ''313'' = format_id f \<and> acodec f = Some ''none''))"
proof -
  let ?x = "\<lparr>o_id = Some ''313'', o_ext = Some ''mp4'', o_quality = ''2160p'',
              o_note = ''HD (Video Only)'', o_filesize = Some 9000, o_needs_merge = True\<rparr>"
  let ?reply = "\<lparr>r_title = Some ''clip'', r_thumbnail = None,
         r_formats =
           [?x,
            \<lparr>o_id = Some ''22'', o_ext = Some ''mp4'', o_quality = ''720p'',
              o_note = ''Video + Audio'', o_filesize = Some 4000, o_needs_merge = False\<rparr>,
            \<lparr>o_id = Some ''18'', o_ext = Some ''mp4'', o_quality = ''360p'',
              o_note = ''Video + Audio'', o_filesize = Some 1000, o_needs_merge = False\<rparr>]\<rparr>"
  have m: "?x \<in> set (r_formats ?reply)" by simp
  from rendered_formats [OF listing_reply m] obtain u i and f :: ytformat where
    u: "Some ''https://example/video'' = Some u" and
    i: "extracted (ydl_listing (ydl_opts_formats False) u False) = Inr i" and
    f: "f \<in> set (case formats i of None \<Rightarrow> [] | Some fs \<Rightarrow> fs)" and
    p: "o_id ?x = format_id f"
       "acodec f \<noteq> Some ''none'' \<longrightarrow> o_ext ?x = ext f \<and> o_note ?x = ''Video + Audio'' \<and>
          \<not> o_needs_merge ?x"
    by blast
  from p(2) have a: "acodec f = Some ''none''" by simp
  from p(1) have d: "Some ''313'' = format_id f" by simp
  from u i f d a have "\<exists>u i. Some ''https://example/video'' = Some u \<and>
      extracted (ydl_listing (ydl_opts_formats False) u False) = Inr i \<and>
      (\<exists>f \<in> set (case formats i of None \<Rightarrow> [] | Some fs \<Rightarrow> fs).
         Some ''313'' = format_id f \<and> acodec f = Some ''none'')"
    by blast
  with listing_reply show ?thesis by (intro conjI)
qed

text \<open>
  C6. When the URL is there and the downloader opens, lists the formats and closes
  without an exception, the formats endpoint answers 200. The qualities of its entries
  are those of a list \<open>rs\<close> of heights, each followed by \<open>p\<close>, where \<open>rs\<close> is strictly
  decreasing (so no height occurs twice) and holds exactly the heights among 360, 480,
  720, 1080, 1440 and 2160 that some listed video format has. For each listed video
  format with audio at such a height, the entry of that height is one with audio
  (\<open>needs_merge\<close> false).
\<close>

theorem formats_listing:
  assumes "url = Some u" and "u \<noteq> []"
    and "opened (yt_dlp (ydl_opts_formats cookies) u False) = Inr ()"
    and "extracted (yt_dlp (ydl_opts_formats cookies) u False) = Inr i"
    and "closed (yt_dlp (ydl_opts_formats cookies) u False) = Inr ()"
  shows "\<exists>reply rs.
     get_formats yt_dlp cookies url = Ok reply \<and>
     map o_quality (r_formats reply) = map (\<lambda>r. str_int r @ ''p'') rs \<and>
     sorted_wrt (>) rs \<and>
     set rs = {r. r \<in> set [360, 480, 720, 1080, 1440, 2160] \<and>
                  (\<exists>f \<in> set (case formats i of None \<Rightarrow> [] | Some fs \<Rightarrow> fs).
                     vcodec f \<noteq> Some ''none'' \<and> height f = Some r)} \<and>
     (\<forall>f \<in> set (case formats i of None \<Rightarrow> [] | Some fs \<Rightarrow> fs).
        \<forall>r. vcodec f \<noteq> Some ''none'' \<and> height f = Some r \<and>
            r \<in> set [360, 480, 720, 1080, 1440, 2160] \<and> acodec f \<noteq> Some ''none'' \<longrightarrow>
            (\<exists>x \<in> set (r_formats reply). o_quality x = str_int r @ ''p'' \<and> \<not> o_needs_merge x))"
proof -
  let ?fs = "case formats i of None \<Rightarrow> [] | Some fs \<Rightarrow> fs"
  let ?es = "collect_formats ?fs"
  let ?K = "\<lambda>e. the (quality_key e)"
  let ?kq = "\<lambda>q. the (py_int (remove_char CHR ''p'' q))"
  from list_formats_result [of i] obtain us seen ss where
    r: "list_formats i = Inr \<lparr>r_title = title i, r_thumbnail = thumbnail i,
                              r_formats = map render us\<rparr>"
    and st: "set ss = set ?es"
    and so: "sorted (map (\<lambda>e. - ?K e) ss)"
    and inv: "dedup_inv ss (us, seen)"
    by blast
  let ?reply = "\<lparr>r_title = title i, r_thumbnail = thumbnail i, r_formats = map render us\<rparr>"
  let ?rs = "map ?K us"
  have g: "get_formats yt_dlp cookies url = Ok ?reply"
    using assms r by (simp add: get_formats_def Let_def)
  have sub: "set us \<subseteq> set ?es"
    using inv st by (simp add: dedup_inv_def)
  have Kq: "?K e = ?kq (e_quality e)" for e
    by (simp add: quality_key_def)
  have q1: "e_quality e = str_int (?K e) @ ''p''" and q2: "?K e \<in> set [360, 480, 720, 1080, 1440, 2160]"
    if "e \<in> set ?es" for e
  proof -
    from collected_quality [OF that] obtain res where
      "res \<in> set [360, 480, 720, 1080, 1440, 2160]" "e_quality e = str_int res @ ''p''"
      "quality_key e = Some res" by blast
    then show "e_quality e = str_int (?K e) @ ''p''"
      and "?K e \<in> set [360, 480, 720, 1080, 1440, 2160]" by simp_all
  qed
  have "map o_quality (r_formats ?reply) = map e_quality us"
    by (simp add: render_def comp_def)
  also have "\<dots> = map (\<lambda>e. str_int (?K e) @ ''p'') us"
  proof (rule map_cong [OF refl])
    fix e assume "e \<in> set us"
    with sub have "e \<in> set ?es" by blast
    then show "e_quality e = str_int (?K e) @ ''p''" by (rule q1)
  qed
  also have "\<dots> = map (\<lambda>r. str_int r @ ''p'') ?rs"
    by (simp add: comp_def)
  finally have a: "map o_quality (r_formats ?reply) = map (\<lambda>r. str_int r @ ''p'') ?rs" .
  have dq: "distinct (map e_quality us)"
    and eq: "e_quality ` set us = e_quality ` set ss"
    using dedup_inv_quality(1,2) [OF inv] by simp_all
  have mq: "map e_quality us = firsts (map e_quality ss)"
    using inv by (simp add: dedup_inv_def)
  have "sorted_wrt (\<lambda>x y. - ?K x \<le> - ?K y) ss"
    using so by (simp add: sorted_map)
  then have "sorted_wrt (\<lambda>x y. ?kq (e_quality y) \<le> ?kq (e_quality x)) ss"
    by (simp add: Kq)
  then have "sorted_wrt (\<lambda>a b. ?kq b \<le> ?kq a) (map e_quality ss)"
    by (simp add: sorted_wrt_map)
  then have "sorted_wrt (\<lambda>a b. ?kq b \<le> ?kq a) (map e_quality us)"
    unfolding mq by (rule sorted_wrt_firsts)
  from sorted_wrt_distinct [OF this dq]
  have "sorted_wrt (\<lambda>x y. ?kq (e_quality y) \<le> ?kq (e_quality x) \<and> e_quality x \<noteq> e_quality y) us"
    by (simp add: sorted_wrt_map)
  then have "sorted_wrt (\<lambda>x y. ?K y < ?K x) us"
  proof (rule sorted_wrt_mono_rel [rotated])
    fix x y assume x: "x \<in> set us" and y: "y \<in> set us"
      and h: "?kq (e_quality y) \<le> ?kq (e_quality x) \<and> e_quality x \<noteq> e_quality y"
    have "?K x \<noteq> ?K y"
    proof
      assume "?K x = ?K y"
      moreover have "x \<in> set ?es" "y \<in> set ?es" using x y sub by blast+
      ultimately have "e_quality x = e_quality y" using q1 [of x] q1 [of y] by simp
      with h show False by simp
    qed
    with h show "?K y < ?K x" by (simp add: Kq)
  qed
  then have b: "sorted_wrt (>) ?rs"
    by (simp add: sorted_wrt_map)
  have img: "?K ` set us = ?K ` set ?es"
  proof -
    have "?K ` set us = ?kq ` (e_quality ` set us)"
      by (simp add: image_image Kq)
    also have "\<dots> = ?kq ` (e_quality ` set ?es)"
      using eq st by simp
    also have "\<dots> = ?K ` set ?es"
      by (simp add: image_image Kq)
    finally show ?thesis .
  qed
  have c: "set ?rs = {r. r \<in> set [360, 480, 720, 1080, 1440, 2160] \<and>
                  (\<exists>f \<in> set ?fs. vcodec f \<noteq> Some ''none'' \<and> height f = Some r)}"
  proof (intro set_eqI iffI)
    fix r assume "r \<in> set ?rs"
    with img obtain e where e: "e \<in> set ?es" and re: "r = ?K e" by auto
    from collect_formats_origin [OF e] obtain f :: ytformat and res where
      f: "f \<in> set ?fs" "vcodec f \<noteq> Some ''none''" "height f = Some res"
        "res \<in> set [360, 480, 720, 1080, 1440, 2160]" and
      ef: "e = \<lparr>e_id = format_id f, e_ext = ext f, e_quality = str_int res @ ''p'',
             e_note = (case format_note f of None \<Rightarrow> [] | Some n \<Rightarrow> n),
             e_filesize = py_or (filesize_approx f) (filesize f),
             e_has_audio = (acodec f \<noteq> Some ''none'')\<rparr>"
      by blast
    from std_quality_key f(4) have "py_int (remove_char CHR ''p'' (str_int res @ ''p'')) = Some res"
      by blast
    then have "?K e = res"
      unfolding ef by (simp add: quality_key_def)
    with re f show "r \<in> {r. r \<in> set [360, 480, 720, 1080, 1440, 2160] \<and>
                  (\<exists>f \<in> set ?fs. vcodec f \<noteq> Some ''none'' \<and> height f = Some r)}"
      by blast
  next
    fix r assume "r \<in> {r. r \<in> set [360, 480, 720, 1080, 1440, 2160] \<and>
                  (\<exists>f \<in> set ?fs. vcodec f \<noteq> Some ''none'' \<and> height f = Some r)}"
    then obtain f :: ytformat where rr: "r \<in> set [360, 480, 720, 1080, 1440, 2160]"
      and f: "f \<in> set ?fs" "vcodec f \<noteq> Some ''none''" "height f = Some r"
      by blast
    let ?e = "\<lparr>e_id = format_id f, e_ext = ext f, e_quality = str_int r @ ''p'',
       e_note = (case format_note f of None \<Rightarrow> [] | Some n \<Rightarrow> n),
       e_filesize = py_or (filesize_approx f) (filesize f),
       e_has_audio = (acodec f \<noteq> Some ''none'')\<rparr>"
    have e: "?e \<in> set ?es"
      using collect_formats_complete [OF f rr] .
    from std_quality_key rr have "py_int (remove_char CHR ''p'' (str_int r @ ''p'')) = Some r"
      by blast
    then have "?K ?e = r"
      by (simp add: quality_key_def)
    moreover have "?K ?e \<in> ?K ` set ?es" using e by (rule imageI)
    ultimately have "r \<in> ?K ` set ?es" by simp
    then have "r \<in> ?K ` set us" by (simp only: img)
    then show "r \<in> set ?rs" by simp
  qed
  have d: "\<forall>f \<in> set ?fs.
        \<forall>r. vcodec f \<noteq> Some ''none'' \<and> height f = Some r \<and>
            r \<in> set [360, 480, 720, 1080, 1440, 2160] \<and> acodec f \<noteq> Some ''none'' \<longrightarrow>
            (\<exists>x \<in> set (r_formats ?reply). o_quality x = str_int r @ ''p'' \<and> \<not> o_needs_merge x)"
  proof (intro ballI allI impI, elim conjE)
    fix f :: ytformat and r
    assume f: "f \<in> set ?fs" "vcodec f \<noteq> Some ''none''" "height f = Some r"
      and rr: "r \<in> set [360, 480, 720, 1080, 1440, 2160]" and au: "acodec f \<noteq> Some ''none''"
    let ?e = "\<lparr>e_id = format_id f, e_ext = ext f, e_quality = str_int r @ ''p'',
       e_note = (case format_note f of None \<Rightarrow> [] | Some n \<Rightarrow> n),
       e_filesize = py_or (filesize_approx f) (filesize f),
       e_has_audio = (acodec f \<noteq> Some ''none'')\<rparr>"
    have "?e \<in> set ss"
      using collect_formats_complete [OF f rr] st by simp
    moreover have "e_has_audio ?e" using au by simp
    moreover have "\<forall>g \<in> set ss. e_has_audio g \<longrightarrow>
         (\<exists>x \<in> set us. e_quality x = e_quality g \<and> e_has_audio x)"
      using inv by (simp add: dedup_inv_def)
    ultimately obtain x where x: "x \<in> set us" "e_quality x = e_quality ?e" "e_has_audio x"
      by blast
    have "render x \<in> set (r_formats ?reply)" using x(1) by simp
    moreover have "o_quality (render x) = str_int r @ ''p''" using x(2) by (simp add: render_def)
    moreover have "\<not> o_needs_merge (render x)" using x(3) by (simp add: render_def)
    ultimately show "\<exists>x \<in> set (r_formats ?reply). o_quality x = str_int r @ ''p'' \<and>
        \<not> o_needs_merge x"
      by (intro bexI [of _ "render x"] conjI)
  qed
  show ?thesis
    by (intro exI [of _ ?reply] exI [of _ ?rs] conjI g a b c d)
qed


theorem formats_listing_witness:
  "opened (ydl_listing (ydl_opts_formats False) ''https://example/video'' False) = Inr () \<and>
   closed (ydl_listing (ydl_opts_formats False) ''https://example/video'' False) = Inr () \<and>
   (\<exists>i reply rs.
      extracted (ydl_listing (ydl_opts_formats False) ''https://example/video'' False) = Inr i \<and>
      get_formats ydl_listing False (Some ''https://example/video'') = Ok reply \<and>
      map o_quality (r_formats reply) = map (\<lambda>r. str_int r @ ''p'') rs \<and>
      sorted_wrt (>) rs \<and>
      set rs = {r. r \<in> set [360, 480, 720, 1080, 1440, 2160] \<and>
                   (\<exists>f \<in> set (case formats i of None \<Rightarrow> [] | Some fs \<Rightarrow> fs).
                      vcodec f \<noteq> Some ''none'' \<and> height f = Some r)})"
proof -
  let ?run = "ydl_listing (ydl_opts_formats False) ''https://example/video'' False"
  have o: "opened ?run = Inr ()" and c: "closed ?run = Inr ()"
    by (simp_all add: ydl_listing_def)
  obtain i where i: "extracted ?run = Inr i"
    by (simp add: ydl_listing_def)
  have n: "''https://example/video'' \<noteq> []" by simp
  from formats_listing [where yt_dlp = ydl_listing and cookies = False
                           and u = "''https://example/video''"
                           and url = "Some ''https://example/video''" and i = i,
                         OF refl n o i c]
  obtain reply rs where
    "get_formats ydl_listing False (Some ''https://example/video'') = Ok reply"
    "map o_quality (r_formats reply) = map (\<lambda>r. str_int r @ ''p'') rs"
    "sorted_wrt (>) rs"
    "set rs = {r. r \<in> set [360, 480, 720, 1080, 1440, 2160] \<and>
                   (\<exists>f \<in> set (case formats i of None \<Rightarrow> [] | Some fs \<Rightarrow> fs).
                      vcodec f \<noteq> Some ''none'' \<and> height f = Some r)}"
    by blast
  with o c i show ?thesis by blast
qed

end
